(* ===== verification/Prelude.thy ===== *)
theory Prelude
  imports Complex_Main "HOL-Library.Word" "HOL-Library.Multiset"
begin

text \<open>
  Shared vocabulary of the Click Clack development: the types that name the
  program's data (bytes, paths), the string operations the source performs on
  paths (JavaScript's \<open>Array.prototype.join\<close>, the splitting of a path into
  segments that the vault adapter and \<open>normalizePath\<close> perform), and generic
  lemmas on lists, options and maps that the component theories share.
\<close>

named_theorems model_defs "definitions unfolded to evaluate the model on concrete inputs"
named_theorems path_simps "rewrite rules on path strings and path segments"

type_synonym byte = "8 word"
type_synonym bytes = "byte list"
type_synonym segs = "string list"

section \<open>Paths as strings\<close>

text \<open>\<open>[s1, ..., sn].join(c)\<close> of JavaScript: the strings separated by \<open>c\<close>.\<close>

fun join_with :: "char \<Rightarrow> string list \<Rightarrow> string" where
  "join_with c [] = []"
| "join_with c [s] = s"
| "join_with c (s # t # ss) = s @ c # join_with c (t # ss)"

text \<open>Splitting a string at every occurrence of a separator (\<open>s.split(c)\<close>).\<close>

fun split_on :: "char \<Rightarrow> string \<Rightarrow> string list" where
  "split_on c [] = [[]]"
| "split_on c (x # xs) =
     (if x = c then [] # split_on c xs
      else (let r = split_on c xs in (x # hd r) # tl r))"

definition slash :: char where
  "slash = CHR ''/''"

text \<open>The segments of a path: split at \<open>/\<close>, empty segments dropped.\<close>

definition path_segments :: "string \<Rightarrow> segs" where
  "path_segments s = filter (\<lambda>w. w \<noteq> []) (split_on slash s)"

section \<open>Generic lemmas\<close>

lemma split_on_not_Nil [simp]: "split_on c s \<noteq> []"
  by (induction s) (auto simp: Let_def)

lemma join_with_Cons:
  "ss \<noteq> [] \<Longrightarrow> join_with c (s # ss) = s @ c # join_with c ss"
  by (cases ss) auto

lemma split_on_no_sep [path_simps]: "c \<notin> set s \<Longrightarrow> split_on c s = [s]"
  by (induction s) auto

lemma split_on_append_sep [path_simps]:
  "split_on c (a @ c # b) = split_on c a @ split_on c b"
proof (induction a)
  case Nil
  then show ?case by simp
next
  case (Cons x a)
  have ne: "split_on c a \<noteq> []" by simp
  then obtain w ws where "split_on c a = w # ws" by (cases "split_on c a") auto
  with Cons show ?case by (simp add: Let_def)
qed

lemma join_split_on [path_simps]: "join_with c (split_on c s) = s"
proof (induction s)
  case Nil
  then show ?case by simp
next
  case (Cons x s)
  obtain w ws where ws: "split_on c s = w # ws"
    by (cases "split_on c s") auto
  show ?case
  proof (cases "x = c")
    case True
    with Cons ws show ?thesis by (simp add: join_with_Cons)
  next
    case False
    with Cons ws show ?thesis by (cases ws) (auto simp: Let_def)
  qed
qed

lemma split_on_join [path_simps]:
  "ss \<noteq> [] \<Longrightarrow> \<forall>s \<in> set ss. c \<notin> set s \<Longrightarrow> split_on c (join_with c ss) = ss"
proof (induction c ss rule: join_with.induct)
  case (3 c s t ss)
  then show ?case by (simp add: split_on_append_sep split_on_no_sep)
qed (auto simp: split_on_no_sep)

lemma path_segments_join2 [path_simps]:
  "path_segments (join_with slash [a, b]) = path_segments a @ path_segments b"
  by (simp add: path_segments_def split_on_append_sep)

lemma split_on_no_sep_in_parts: "w \<in> set (split_on c s) \<Longrightarrow> c \<notin> set w"
proof (induction s arbitrary: w)
  case (Cons x s)
  obtain v vs where vs: "split_on c s = v # vs"
    by (cases "split_on c s") auto
  with Cons show ?case by (auto simp: Let_def split: if_splits)
qed simp

lemma path_segments_no_slash: "s \<in> set (path_segments p) \<Longrightarrow> slash \<notin> set s"
  by (auto simp: path_segments_def dest: split_on_no_sep_in_parts)

lemma path_segments_nonempty: "s \<in> set (path_segments p) \<Longrightarrow> s \<noteq> []"
  by (simp add: path_segments_def)

lemma case_prod_append_snd [simp]:
  "(case p of (a, b) \<Rightarrow> (a, e @ b)) = (fst p, e @ snd p)"
  by (cases p) simp

lemma find_SomeD:
  "find P xs = Some x \<Longrightarrow> P x \<and> (\<exists>ys zs. xs = ys @ x # zs \<and> (\<forall>y \<in> set ys. \<not> P y))"
proof (induction xs)
  case (Cons a xs)
  show ?case
  proof (cases "P a")
    case True
    with Cons.prems show ?thesis by fastforce
  next
    case False
    with Cons obtain ys zs where x: "P x" and xs: "xs = ys @ x # zs"
      and ys: "\<forall>y \<in> set ys. \<not> P y"
      by auto
    from False xs ys have "a # xs = (a # ys) @ x # zs \<and> (\<forall>y \<in> set (a # ys). \<not> P y)"
      by simp
    with x show ?thesis by blast
  qed
qed simp

end
