(* ===== verification/Vault.thy ===== *)
theory Vault
  imports Prelude
begin

text \<open>
  The plugin-private file store behind \<open>app.vault.adapter\<close> (the
  \<open>DataAdapter\<close> of \<open>src/typings/obsidian.d.ts\<close>): a map from paths, as lists
  of segments, to folders and binary files. Its semantics is the host
  platform's and is modelled from the specification's interface (section 6):
  \<open>exists\<close> asks whether a path is present; \<open>mkdir\<close> creates the folder and any
  missing parent folders, and fails when a file is in the way; \<open>writeBinary\<close>
  stores the bytes verbatim and fails unless the parent folder exists;
  \<open>readBinary\<close> returns a file's bytes. A failed operation leaves the store as
  it was. \<open>normalizePath\<close> of Obsidian collapses repeated slashes and strips
  leading and trailing ones. The error type of the whole development is
  declared here.
\<close>

datatype error =
    NetworkUnavailable
  | MalformedManifest
  | AssetNotFound
  | ArchiveCorrupt
  | StorageWriteFailed
  | ReadFailed
  | FetchFailed string

datatype node = Folder | File bytes

type_synonym vault = "segs \<rightharpoonup> node"

definition normalizePath :: "string \<Rightarrow> string" where
  "normalizePath p = join_with slash (path_segments p)"

definition resolve :: "string \<Rightarrow> segs" where
  "resolve p = path_segments p"

definition exists :: "vault \<Rightarrow> string \<Rightarrow> bool" where
  "exists v p \<longleftrightarrow> resolve p \<in> dom v"

fun mkdir_segs :: "vault \<Rightarrow> segs \<Rightarrow> segs \<Rightarrow> error + vault" where
  "mkdir_segs v pre [] = Inr v"
| "mkdir_segs v pre (s # ss) =
     (case v (pre @ [s]) of
        None \<Rightarrow> mkdir_segs (v(pre @ [s] \<mapsto> Folder)) (pre @ [s]) ss
      | Some Folder \<Rightarrow> mkdir_segs v (pre @ [s]) ss
      | Some (File _) \<Rightarrow> Inl StorageWriteFailed)"

definition mkdir :: "vault \<Rightarrow> string \<Rightarrow> error + vault" where
  "mkdir v p = mkdir_segs v [] (resolve p)"

definition writeBinary :: "vault \<Rightarrow> string \<Rightarrow> bytes \<Rightarrow> error + vault" where
  "writeBinary v p d =
     (let q = resolve p in
      if q \<noteq> [] \<and> v (butlast q) = Some Folder \<and> v q \<noteq> Some Folder
      then Inr (v(q \<mapsto> File d)) else Inl StorageWriteFailed)"

definition readBinary :: "vault \<Rightarrow> string \<Rightarrow> error + bytes" where
  "readBinary v p = (case v (resolve p) of Some (File d) \<Rightarrow> Inr d | _ \<Rightarrow> Inl ReadFailed)"

text \<open>A well-formed store: the root is a folder and the parent of every entry is
  a folder.\<close>

definition wf_vault :: "vault \<Rightarrow> bool" where
  "wf_vault v \<longleftrightarrow> v [] = Some Folder \<and> (\<forall>q \<in> dom v. q \<noteq> [] \<longrightarrow> v (butlast q) = Some Folder)"

text \<open>Growth of a store: nothing disappears, a file may only be replaced by a
  file, and new entries may appear. Every operation of the adapter the plugin
  calls grows the store.\<close>

definition grows :: "vault \<Rightarrow> vault \<Rightarrow> bool" where
  "grows v v' \<longleftrightarrow> dom v \<subseteq> dom v' \<and> (\<forall>q. v q = Some Folder \<longrightarrow> v' q = Some Folder)"

text \<open>Some entry on the way to a folder path is a file: the reason \<open>mkdir\<close>
  fails.\<close>

definition blocked_by_file :: "vault \<Rightarrow> segs \<Rightarrow> segs \<Rightarrow> bool" where
  "blocked_by_file v pre ss \<longleftrightarrow> (\<exists>k d. 0 < k \<and> k \<le> length ss \<and> v (pre @ take k ss) = Some (File d))"

text \<open>A store that only gains entries: every entry that changed was absent.\<close>

definition adds_only :: "vault \<Rightarrow> vault \<Rightarrow> bool" where
  "adds_only v v' \<longleftrightarrow> (\<forall>q. v' q \<noteq> v q \<longrightarrow> v q = None)"

section \<open>Lemmas\<close>

lemma resolve_normalizePath [path_simps]: "resolve (normalizePath p) = resolve p"
proof (cases "path_segments p = []")
  case True
  then show ?thesis
    by (simp add: resolve_def normalizePath_def path_segments_def)
next
  case False
  have "split_on slash (join_with slash (path_segments p)) = path_segments p"
    using False path_segments_no_slash by (intro split_on_join) auto
  moreover have "filter (\<lambda>w. w \<noteq> []) (path_segments p) = path_segments p"
    using path_segments_nonempty by (auto intro: filter_True)
  ultimately show ?thesis
    by (simp add: resolve_def normalizePath_def path_segments_def [of "join_with slash _"])
qed

lemma grows_refl [simp]: "grows v v"
  by (simp add: grows_def)

lemma grows_trans: "grows u v \<Longrightarrow> grows v w \<Longrightarrow> grows u w"
  unfolding grows_def by (blast intro: subset_trans)

lemma grows_upd_new: "v q = None \<Longrightarrow> grows v (v(q \<mapsto> x))"
  by (auto simp: grows_def)

lemma grows_upd_file: "v q \<noteq> Some Folder \<Longrightarrow> grows v (v(q \<mapsto> File d))"
  by (auto simp: grows_def)

text \<open>One step of \<open>mkdir_segs\<close> on the first segment, by the three cases of the
  entry found there.\<close>

lemma mkdir_segs_Cons_cases:
  assumes "mkdir_segs v pre (s # ss) = Inr v'"
  obtains (new) "v (pre @ [s]) = None" "mkdir_segs (v(pre @ [s] \<mapsto> Folder)) (pre @ [s]) ss = Inr v'"
    | (old) "v (pre @ [s]) = Some Folder" "mkdir_segs v (pre @ [s]) ss = Inr v'"
  using assms by (auto split: option.splits node.splits)

lemma mkdir_segs_grows: "mkdir_segs v pre ss = Inr v' \<Longrightarrow> grows v v'"
proof (induction ss arbitrary: v pre)
  case (Cons s ss)
  from Cons.prems show ?case
  proof (cases rule: mkdir_segs_Cons_cases)
    case new
    then show ?thesis by (blast intro: grows_trans grows_upd_new Cons.IH)
  next
    case old
    then show ?thesis by (blast intro: Cons.IH)
  qed
qed simp

lemma mkdir_grows: "mkdir v p = Inr v' \<Longrightarrow> grows v v'"
  unfolding mkdir_def by (rule mkdir_segs_grows)

lemma writeBinary_eq:
  "writeBinary v p d = Inr v' \<longleftrightarrow>
     resolve p \<noteq> [] \<and> v (butlast (resolve p)) = Some Folder \<and> v (resolve p) \<noteq> Some Folder
     \<and> v' = v(resolve p \<mapsto> File d)"
  by (auto simp: writeBinary_def Let_def)

lemma writeBinary_grows: "writeBinary v p d = Inr v' \<Longrightarrow> grows v v'"
  by (auto simp: writeBinary_eq intro: grows_upd_file)

text \<open>The entries \<open>mkdir\<close> adds are folders; it never touches an existing entry.\<close>

lemma mkdir_segs_new_folders:
  "mkdir_segs v pre ss = Inr v' \<Longrightarrow> v' q \<noteq> v q \<Longrightarrow> v q = None \<and> v' q = Some Folder"
proof (induction ss arbitrary: v pre)
  case (Cons s ss)
  from Cons.prems(1) show ?case
  proof (cases rule: mkdir_segs_Cons_cases)
    case new
    show ?thesis
    proof (cases "q = pre @ [s]")
      case True
      with new mkdir_segs_grows [OF new(2)] show ?thesis by (auto simp: grows_def)
    next
      case False
      with Cons.IH [OF new(2)] Cons.prems(2) show ?thesis by simp
    qed
  next
    case old
    with Cons.IH [OF old(2)] Cons.prems(2) show ?thesis by simp
  qed
qed simp

lemma mkdir_new_folders: "mkdir v p = Inr v' \<Longrightarrow> v' q \<noteq> v q \<Longrightarrow> v q = None \<and> v' q = Some Folder"
  unfolding mkdir_def by (rule mkdir_segs_new_folders)

lemma mkdir_segs_wf:
  "mkdir_segs v pre ss = Inr v' \<Longrightarrow> wf_vault v \<Longrightarrow> v pre = Some Folder \<Longrightarrow> wf_vault v'"
proof (induction ss arbitrary: v pre)
  case (Cons s ss)
  from Cons.prems(1) show ?case
  proof (cases rule: mkdir_segs_Cons_cases)
    case new
    have "wf_vault (v(pre @ [s] \<mapsto> Folder))"
      using Cons.prems(2,3) new(1) by (auto simp: wf_vault_def)
    then show ?thesis by (rule Cons.IH [OF new(2)]) simp
  next
    case old
    then show ?thesis using Cons.IH [OF old(2) Cons.prems(2)] by simp
  qed
qed simp

lemma mkdir_wf: "mkdir v p = Inr v' \<Longrightarrow> wf_vault v \<Longrightarrow> wf_vault v'"
proof -
  assume m: "mkdir v p = Inr v'" and w: "wf_vault v"
  from w have "v [] = Some Folder" by (simp add: wf_vault_def)
  with m w show ?thesis unfolding mkdir_def by (rule mkdir_segs_wf)
qed

lemma writeBinary_wf: "writeBinary v p d = Inr v' \<Longrightarrow> wf_vault v \<Longrightarrow> wf_vault v'"
  by (auto simp: writeBinary_eq wf_vault_def)

lemma mkdir_segs_creates:
  "mkdir_segs v pre ss = Inr v' \<Longrightarrow> v pre = Some Folder \<Longrightarrow> v' (pre @ ss) = Some Folder"
proof (induction ss arbitrary: v pre)
  case (Cons s ss)
  from Cons.prems(1) show ?case
  proof (cases rule: mkdir_segs_Cons_cases)
    case new
    then show ?thesis using Cons.IH [OF new(2)] by simp
  next
    case old
    then show ?thesis using Cons.IH [OF old(2)] by simp
  qed
qed simp

lemma mkdir_creates: "mkdir v p = Inr v' \<Longrightarrow> wf_vault v \<Longrightarrow> v' (resolve p) = Some Folder"
  using mkdir_segs_creates [of v "[]" "resolve p" v'] by (simp add: mkdir_def wf_vault_def)

lemma blocked_by_file_Nil [simp]: "\<not> blocked_by_file v pre []"
  by (simp add: blocked_by_file_def)

lemma blocked_by_file_Cons:
  "blocked_by_file v pre (s # ss) \<longleftrightarrow> (\<exists>d. v (pre @ [s]) = Some (File d)) \<or> blocked_by_file v (pre @ [s]) ss"
proof
  assume "blocked_by_file v pre (s # ss)"
  then obtain k d where k: "0 < k" "k \<le> Suc (length ss)" "v (pre @ take k (s # ss)) = Some (File d)"
    by (auto simp: blocked_by_file_def)
  show "(\<exists>d. v (pre @ [s]) = Some (File d)) \<or> blocked_by_file v (pre @ [s]) ss"
  proof (cases k)
    case (Suc k')
    with k show ?thesis
      by (cases k') (auto simp: blocked_by_file_def intro!: exI [of _ k'])
  qed (use k in simp)
next
  assume "(\<exists>d. v (pre @ [s]) = Some (File d)) \<or> blocked_by_file v (pre @ [s]) ss"
  then show "blocked_by_file v pre (s # ss)"
  proof
    assume "\<exists>d. v (pre @ [s]) = Some (File d)"
    then show ?thesis by (auto simp: blocked_by_file_def intro!: exI [of _ 1])
  next
    assume "blocked_by_file v (pre @ [s]) ss"
    then obtain k d where "0 < k" "k \<le> length ss" "v (pre @ [s] @ take k ss) = Some (File d)"
      by (auto simp: blocked_by_file_def)
    then show ?thesis by (auto simp: blocked_by_file_def intro!: exI [of _ "Suc k"])
  qed
qed

lemma blocked_by_file_upd: "blocked_by_file (v(pre \<mapsto> x)) pre ss \<longleftrightarrow> blocked_by_file v pre ss"
proof -
  have "pre @ take k ss \<noteq> pre" if "0 < k" "k \<le> length ss" for k
    using that by (cases ss) auto
  then show ?thesis by (auto simp: blocked_by_file_def)
qed

text \<open>\<open>mkdir\<close> fails exactly when a file is on the way.\<close>

lemma mkdir_segs_Inl_iff: "(\<exists>e. mkdir_segs v pre ss = Inl e) \<longleftrightarrow> blocked_by_file v pre ss"
proof (induction ss arbitrary: v pre)
  case (Cons s ss)
  show ?case
  proof (cases "v (pre @ [s])")
    case None
    then show ?thesis using Cons.IH [of "v(pre @ [s] \<mapsto> Folder)" "pre @ [s]"]
      by (simp add: blocked_by_file_Cons blocked_by_file_upd del: fun_upd_apply)
  next
    case (Some n)
    then show ?thesis using Cons.IH [of v "pre @ [s]"]
      by (cases n) (simp_all add: blocked_by_file_Cons)
  qed
qed simp

lemma mkdir_Inl_iff: "(\<exists>e. mkdir v p = Inl e) \<longleftrightarrow> blocked_by_file v [] (resolve p)"
  by (simp add: mkdir_def mkdir_segs_Inl_iff)

lemma adds_only_refl [simp]: "adds_only v v"
  by (simp add: adds_only_def)

lemma adds_only_trans: "adds_only u v \<Longrightarrow> adds_only v w \<Longrightarrow> adds_only u w"
  unfolding adds_only_def by metis

lemma adds_only_keeps: "adds_only v v' \<Longrightarrow> v q = Some x \<Longrightarrow> v' q = Some x"
  unfolding adds_only_def by (metis option.distinct(1))

lemma adds_only_dom: "adds_only v v' \<Longrightarrow> dom v \<subseteq> dom v'"
  by (auto dest: adds_only_keeps)

lemma adds_only_blocked_by_file: "adds_only v v' \<Longrightarrow> blocked_by_file v pre ss \<Longrightarrow> blocked_by_file v' pre ss"
  unfolding blocked_by_file_def by (blast dest: adds_only_keeps)

lemma mkdir_adds_only: "mkdir v p = Inr v' \<Longrightarrow> adds_only v v'"
  unfolding adds_only_def using mkdir_new_folders by blast

lemma writeBinary_new_adds_only: "writeBinary v p d = Inr v' \<Longrightarrow> v (resolve p) = None \<Longrightarrow> adds_only v v'"
  by (auto simp: writeBinary_eq adds_only_def)

end
