(* ===== verification/Scheduler.thy ===== *)
theory Scheduler
  imports Prelude
begin

text \<open>
  The host's cooperative event loop (specification, section 5), as an interface
  shared by the asynchronous components. An \<open>async\<close> function of the source runs
  until its first \<open>await\<close> on I/O; from then on it is a pending continuation. A
  promise that nobody awaits (\<open>this.unzip(zipPath)\<close>, \<open>files.forEach(async ...)\<close>,
  \<open>this.checkOrCreateFolder(...)\<close> without \<open>await\<close>) is such a continuation
  that runs independently of its caller. The I/O operations complete in any
  order, so the pending continuations form a multiset and any of them may
  resume next: \<open>resume step\<close> picks one, runs it (its I/O effect and the code up
  to its next \<open>await\<close>) with the component's \<open>step\<close> function, puts back its
  continuation and the tasks it started, and logs the rejections nobody handles.
  The theory is generic in the state, task and error types: each component
  instantiates \<open>step\<close> and proves \<open>ranked\<close> for it.
\<close>

record ('s, 't, 'e) loop_state =
  store :: 's
  pending :: "'t multiset"
  rejected :: "'e list"

type_synonym ('s, 't, 'e) step_fn = "'s \<Rightarrow> 't \<Rightarrow> 's \<times> 't list \<times> 'e list"

inductive resume :: "('s, 't, 'e) step_fn \<Rightarrow> ('s, 't, 'e) loop_state \<Rightarrow> ('s, 't, 'e) loop_state \<Rightarrow> bool"
  for step where
  pick: "t \<in># pending w \<Longrightarrow> step (store w) t = (s', new, es) \<Longrightarrow>
     resume step w \<lparr>store = s', pending = pending w - {#t#} + mset new, rejected = rejected w @ es\<rparr>"

inductive_cases resumeE: "resume step w w'"

text \<open>A step function is ranked when every task it starts or continues with has a
  smaller rank than the task that ran: the number of \<open>await\<close>s left, counted
  through the tasks each continuation may start.\<close>

definition ranked :: "('s, 't, 'e) step_fn \<Rightarrow> ('t \<Rightarrow> nat) \<Rightarrow> bool" where
  "ranked step rank \<longleftrightarrow>
     (\<forall>s t s' new es. step s t = (s', new, es) \<longrightarrow> (\<forall>t' \<in> set new. rank t' < rank t))"

text \<open>The depth-first schedule: the first task runs to its end before the next one
  starts (its continuation and the tasks it starts go first). Fuel bounds the
  number of steps; running out is \<open>None\<close>.\<close>

fun drain :: "nat \<Rightarrow> ('s, 't, 'e) step_fn \<Rightarrow> 's \<Rightarrow> 't list \<Rightarrow> ('s \<times> 'e list) option" where
  "drain 0 step s ts = (if ts = [] then Some (s, []) else None)"
| "drain (Suc n) step s [] = Some (s, [])"
| "drain (Suc n) step s (t # ts) =
     (case step s t of (s', new, es) \<Rightarrow>
        map_option (\<lambda>(s'', es'). (s'', es @ es')) (drain n step s' (new @ ts)))"

text \<open>\<open>P\<close> is inevitable from a state when every schedule reaches it: either
  \<open>P\<close> holds now, or some task is pending and every way of resuming one leads
  to a state from which \<open>P\<close> is inevitable. This is the operator \<open>AF\<close> of
  temporal logic, as a least fixed point; since a pending task can always be
  resumed, the second rule is never vacuous.\<close>

inductive inevitable ::
  "('s, 't, 'e) step_fn \<Rightarrow> (('s, 't, 'e) loop_state \<Rightarrow> bool) \<Rightarrow> ('s, 't, 'e) loop_state \<Rightarrow> bool"
  for step P where
  now: "P w \<Longrightarrow> inevitable step P w"
| later: "pending w \<noteq> {#} \<Longrightarrow> (\<And>w'. resume step w w' \<Longrightarrow> inevitable step P w') \<Longrightarrow> inevitable step P w"

section \<open>Lemmas\<close>

lemma resume_store_cases:
  assumes "resume step w w'"
  obtains t new es where "t \<in># pending w" "step (store w) t = (store w', new, es)"
    "pending w' = pending w - {#t#} + mset new" "rejected w' = rejected w @ es"
  using assms by (auto elim: resumeE)

lemma ranked_step_decreases:
  assumes "ranked step rank" and "step s t = (s', new, es)"
  shows "image_mset rank (I + mset new) < image_mset rank (add_mset t I)"
proof -
  from assms have "\<forall>t' \<in> set new. rank t' < rank t"
    unfolding ranked_def by blast
  then have lt: "\<forall>k \<in># image_mset rank (mset new). \<exists>j \<in># {#rank t#}. k < j"
    by auto
  have "multp (<) (image_mset rank I + image_mset rank (mset new)) (image_mset rank I + {#rank t#})"
    by (rule one_step_implies_multp) (use lt in simp_all)
  then show ?thesis by (simp add: less_multiset_def)
qed

lemma resume_decreases:
  assumes "ranked step rank" and "resume step w w'"
  shows "image_mset rank (pending w') < image_mset rank (pending w)"
proof -
  from assms(2) obtain t new es where t: "t \<in># pending w"
    and st: "step (store w) t = (store w', new, es)"
    and p: "pending w' = pending w - {#t#} + mset new"
    by (rule resume_store_cases)
  from t have "pending w = add_mset t (pending w - {#t#})" by simp
  with ranked_step_decreases [OF assms(1) st, of "pending w - {#t#}"] p show ?thesis
    by simp
qed

lemma resume_wf:
  assumes "ranked step rank"
  shows "wfp (\<lambda>w' w. resume step w w')"
proof (rule wfp_if_convertible_to_wfp [of "(<) :: nat multiset \<Rightarrow> nat multiset \<Rightarrow> bool"
      "\<lambda>w' w. resume step w w'" "\<lambda>w. image_mset rank (pending w)"])
  show "wfp ((<) :: nat multiset \<Rightarrow> nat multiset \<Rightarrow> bool)" by simp
next
  fix w' w
  assume "resume step w w'"
  with assms show "image_mset rank (pending w') < image_mset rank (pending w)"
    by (rule resume_decreases)
qed

lemma resume_pick_list:
  "t \<in> set ts \<Longrightarrow> step s t = (s', new, es) \<Longrightarrow>
   resume step \<lparr>store = s, pending = mset ts, rejected = E\<rparr>
     \<lparr>store = s', pending = mset (remove1 t ts @ new), rejected = E @ es\<rparr>"
  using resume.pick [of t "\<lparr>store = s, pending = mset ts, rejected = E\<rparr>" step s' new es]
  by (simp add: mset_remove1)

lemma resume_progress:
  "t \<in># pending w \<Longrightarrow> \<exists>w'. resume step w w'"
  by (cases "step (store w) t") (blast intro: resume.pick)

lemma drain_mono:
  "drain n step s ts = Some r \<Longrightarrow> drain (Suc n) step s ts = Some r"
proof (induction n step s ts arbitrary: r rule: drain.induct)
  case (1 step s ts)
  then show ?case by (cases ts) (auto split: if_splits)
next
  case (3 n step s t ts)
  then show ?case by (auto split: prod.splits)
qed simp

lemma drain_mono_le:
  "drain n step s ts = Some r \<Longrightarrow> n \<le> m \<Longrightarrow> drain m step s ts = Some r"
  by (induction m) (auto simp: le_Suc_eq dest: drain_mono)

lemma drain_Cons_step:
  assumes "step s t = (s', new, es)"
  shows "drain (Suc n) step s (t # ts) =
           map_option (\<lambda>(s'', es'). (s'', es @ es')) (drain n step s' (new @ ts))"
  using assms by simp

text \<open>Running two task lists one after the other, each to its end, is the
  depth-first schedule of the concatenation.\<close>

lemma drain_append:
  "drain n step s ts = Some (s1, es1) \<Longrightarrow> drain m step s1 us = Some (s2, es2) \<Longrightarrow>
   drain (n + m) step s (ts @ us) = Some (s2, es1 @ es2)"
proof (induction n step s ts arbitrary: s1 es1 rule: drain.induct)
  case (1 step s ts)
  then show ?case by (simp split: if_splits)
next
  case (2 n step s)
  then show ?case using drain_mono_le [of m step s1 us "(s2, es2)" "Suc n + m"] by simp
next
  case (3 n step s t ts)
  obtain s' new es where st: "step s t = (s', new, es)" by (cases "step s t") auto
  with "3.prems"(1) obtain es' where d: "drain n step s' (new @ ts) = Some (s1, es')"
    and es: "es1 = es @ es'"
    by (auto split: prod.splits)
  have "drain (n + m) step s' ((new @ ts) @ us) = Some (s2, es' @ es2)"
    using "3.IH" [OF st [symmetric] refl d "3.prems"(2)] .
  with st es show ?case by simp
qed

lemma drain_single_step:
  assumes "step s t = (s', new, es)" and "\<exists>n. drain n step s' new = Some r"
  shows "\<exists>n. drain n step s [t] = Some (fst r, es @ snd r)"
proof -
  from assms(2) obtain n where "drain n step s' new = Some r" by blast
  with assms(1) have "drain (Suc n) step s [t] = Some (fst r, es @ snd r)"
    by (cases r) simp
  then show ?thesis by blast
qed

lemma drain_total:
  assumes "ranked step rank"
  shows "\<exists>n r. drain n step s ts = Some r"
proof -
  have "\<forall>s ts. image_mset rank (mset ts) = M \<longrightarrow> (\<exists>n r. drain n step s ts = Some r)"
    for M :: "nat multiset"
  proof (induction M rule: wfp_induct_rule [OF wfp_less_multiset [OF wfp_on_less]])
    case (1 M)
    show ?case
    proof (intro allI impI)
      fix s ts
      assume M: "image_mset rank (mset ts) = M"
      show "\<exists>n r. drain n step s ts = Some r"
      proof (cases ts)
        case Nil
        then show ?thesis by (intro exI[of _ 0]) simp
      next
        case (Cons t ts')
        obtain s' new es where st: "step s t = (s', new, es)" by (cases "step s t") auto
        have "image_mset rank (mset ts' + mset new) < image_mset rank (add_mset t (mset ts'))"
          by (rule ranked_step_decreases [OF assms st])
        then have "image_mset rank (mset (new @ ts')) < M"
          using M Cons by (simp add: ac_simps)
        with "1" obtain n r where "drain n step s' (new @ ts') = Some r" by blast
        then show ?thesis using Cons st by (intro exI[of _ "Suc n"]) (auto split: prod.splits)
      qed
    qed
  qed
  then show ?thesis by blast
qed

lemma drain_resume:
  "drain n step s ts = Some (s', es) \<Longrightarrow>
   (resume step)\<^sup>*\<^sup>* \<lparr>store = s, pending = mset ts + R, rejected = E\<rparr>
                       \<lparr>store = s', pending = R, rejected = E @ es\<rparr>"
proof (induction n step s ts arbitrary: s' es E rule: drain.induct)
  case (1 step s ts)
  then show ?case by (simp split: if_splits)
next
  case (2 n step s)
  then show ?case by simp
next
  case (3 n step s t ts)
  obtain s1 new es1 where st: "step s t = (s1, new, es1)" by (cases "step s t") auto
  with "3.prems" obtain es' where d: "drain n step s1 (new @ ts) = Some (s', es')"
    and es: "es = es1 @ es'"
    by (auto split: prod.splits)
  have "resume step \<lparr>store = s, pending = mset (t # ts) + R, rejected = E\<rparr>
          \<lparr>store = s1, pending = mset (t # ts) + R - {#t#} + mset new, rejected = E @ es1\<rparr>"
    using resume.pick [of t "\<lparr>store = s, pending = mset (t # ts) + R, rejected = E\<rparr>"] st by simp
  moreover have "mset (t # ts) + R - {#t#} + mset new = mset (new @ ts) + R"
    by (simp add: ac_simps)
  moreover have "(resume step)\<^sup>*\<^sup>* \<lparr>store = s1, pending = mset (new @ ts) + R, rejected = E @ es1\<rparr>
                   \<lparr>store = s', pending = R, rejected = (E @ es1) @ es'\<rparr>"
    using "3.IH" [OF st [symmetric] refl d] .
  ultimately show ?case using es
    by (simp add: ac_simps)
qed

lemma resume_completes:
  assumes "ranked step rank"
  shows "\<exists>w'. (resume step)\<^sup>*\<^sup>* w w' \<and> pending w' = {#}"
proof -
  obtain ts where ts: "mset ts = pending w" using ex_mset by blast
  from drain_total [OF assms] obtain n s' es where
    d: "drain n step (store w) ts = Some (s', es)" by fastforce
  have "w = \<lparr>store = store w, pending = mset ts + {#}, rejected = rejected w\<rparr>"
    using ts by simp
  with drain_resume [OF d, of "{#}" "rejected w"] show ?thesis by fastforce
qed

text \<open>Liveness from an invariant: when every step keeps \<open>Q\<close> and \<open>Q\<close> implies
  \<open>P\<close> once nothing is pending, \<open>P\<close> is inevitable from every \<open>Q\<close> state of a
  ranked step function, since no schedule runs forever.\<close>

lemma ranked_inevitable:
  assumes "ranked step rank"
    and "\<And>w w'. Q w \<Longrightarrow> resume step w w' \<Longrightarrow> Q w'"
    and "\<And>w. Q w \<Longrightarrow> pending w = {#} \<Longrightarrow> P w"
    and "Q w"
  shows "inevitable step P w"
  using assms(4)
proof (induction w rule: wfp_induct_rule [OF resume_wf [OF assms(1)]])
  case (1 w)
  show ?case
  proof (cases "pending w = {#}")
    case True
    with "1.prems" show ?thesis by (simp add: assms(3) inevitable.now)
  next
    case False
    show ?thesis
    proof (rule inevitable.later [OF False])
      fix w' assume r: "resume step w w'"
      with "1.prems" have "Q w'" by (rule assms(2))
      with r show "inevitable step P w'" by (rule "1.IH")
    qed
  qed
qed

end
