(* ===== verification/Extract.thy ===== *)
theory Extract
  imports Vault Scheduler
begin

text \<open>
  The Archive Extractor, \<open>FetchHelper.unzip\<close> and \<open>checkOrCreateFolder\<close> of
  \<open>src/src/fetchHelper.ts\<close>. \<open>unzip\<close> awaits the archive's bytes and its
  entries, and then only starts work it does not await: the base folder's
  \<open>checkOrCreateFolder\<close>, one \<open>checkOrCreateFolder\<close> per directory entry
  (\<open>folders.forEach(async ...)\<close>) and one callback per file entry
  (\<open>files.forEach(async ...)\<close>). Each of these is a task of the event loop of
  \<open>Scheduler\<close>; \<open>xstep\<close> runs one of them from one \<open>await\<close> to the next. The
  same bodies run without interruption are \<open>checkOrCreateFolder\<close> and
  \<open>extract_file\<close>, and \<open>run_seq\<close> runs the tasks one after the other in the order
  \<open>unzip\<close> starts them. ZIP decoding (zip.js) is a parameter \<open>parse\<close> of the
  model: \<open>None\<close> is an archive it cannot read. The theory proves safety,
  termination over every interleaving, the refinement of
  \<open>run_seq\<close> into the event loop, the folder race, and, through the
  predicates \<open>ensured\<close> and \<open>extracted\<close> (a task with nothing left to do), that
  a second sequential run on the result changes nothing.
\<close>

record zip_entry =
  filename :: string
  directory :: bool
  getData :: "bytes option"

definition basePath :: "string \<Rightarrow> string" where
  "basePath configDir =
     normalizePath (join_with slash [configDir, ''plugins'', ''click-clack'', ''resources''])"

definition entry_path :: "string \<Rightarrow> zip_entry \<Rightarrow> string" where
  "entry_path base e = join_with slash [base, filename e]"

text \<open>The two async bodies, run to their end.\<close>

definition checkOrCreateFolder :: "vault \<Rightarrow> string \<Rightarrow> vault \<times> error list" where
  "checkOrCreateFolder v name =
     (if exists v name then (v, [])
      else (case mkdir v name of Inl e \<Rightarrow> (v, [e]) | Inr v' \<Rightarrow> (v', [])))"

definition extract_file :: "vault \<Rightarrow> string \<Rightarrow> bytes option \<Rightarrow> vault \<times> error list" where
  "extract_file v path d =
     (if exists v path then (v, [])
      else (case d of
              None \<Rightarrow> (v, [])
            | Some b \<Rightarrow> (case writeBinary v path b of Inl e \<Rightarrow> (v, [e]) | Inr v' \<Rightarrow> (v', []))))"

text \<open>The same bodies cut at their \<open>await\<close>s: a task is the point where a body
  waits.\<close>

datatype xtask =
    Ensure string
  | EnsureMkdir string
  | Extract string "bytes option"
  | ExtractWrite string bytes

fun xstep :: "vault \<Rightarrow> xtask \<Rightarrow> vault \<times> xtask list \<times> error list" where
  "xstep v (Ensure name) = (if exists v name then (v, [], []) else (v, [EnsureMkdir name], []))"
| "xstep v (EnsureMkdir name) =
     (case mkdir v name of Inl e \<Rightarrow> (v, [], [e]) | Inr v' \<Rightarrow> (v', [], []))"
| "xstep v (Extract path d) =
     (if exists v path then (v, [], [])
      else (case d of None \<Rightarrow> (v, [], []) | Some b \<Rightarrow> (v, [ExtractWrite path b], [])))"
| "xstep v (ExtractWrite path b) =
     (case writeBinary v path b of Inl e \<Rightarrow> (v, [], [e]) | Inr v' \<Rightarrow> (v', [], []))"

fun xrank :: "xtask \<Rightarrow> nat" where
  "xrank (Ensure _) = 2"
| "xrank (EnsureMkdir _) = 1"
| "xrank (Extract _ _) = 2"
| "xrank (ExtractWrite _ _) = 1"

fun xrun :: "vault \<Rightarrow> xtask \<Rightarrow> vault \<times> error list" where
  "xrun v (Ensure name) = checkOrCreateFolder v name"
| "xrun v (EnsureMkdir name) = (case mkdir v name of Inl e \<Rightarrow> (v, [e]) | Inr v' \<Rightarrow> (v', []))"
| "xrun v (Extract path d) = extract_file v path d"
| "xrun v (ExtractWrite path b) =
     (case writeBinary v path b of Inl e \<Rightarrow> (v, [e]) | Inr v' \<Rightarrow> (v', []))"

fun run_seq :: "vault \<Rightarrow> xtask list \<Rightarrow> vault \<times> error list" where
  "run_seq v [] = (v, [])"
| "run_seq v (t # ts) =
     (let r1 = xrun v t; r2 = run_seq (fst r1) ts in (fst r2, snd r1 @ snd r2))"

text \<open>The tasks \<open>unzip\<close> starts once it has the entries, in the order it starts
  them.\<close>

definition unzip_tasks :: "string \<Rightarrow> zip_entry list \<Rightarrow> xtask list" where
  "unzip_tasks configDir entries =
     (let base = basePath configDir;
          folders = filter directory entries;
          files = filter (\<lambda>e. \<not> directory e) entries
      in Ensure base # map (\<lambda>e. Ensure (entry_path base e)) folders
         @ map (\<lambda>e. Extract (entry_path base e) (getData e)) files)"

text \<open>The part of \<open>unzip\<close> before it starts the tasks: read the archive, decode
  it. A failure here rejects \<open>unzip\<close>'s own promise.\<close>

definition unzip_start ::
  "(bytes \<Rightarrow> zip_entry list option) \<Rightarrow> string \<Rightarrow> vault \<Rightarrow> string \<Rightarrow> error + xtask list" where
  "unzip_start parse configDir v zipFile =
     (case readBinary v zipFile of
        Inl e \<Rightarrow> Inl e
      | Inr blob \<Rightarrow> (case parse blob of
                      None \<Rightarrow> Inl ArchiveCorrupt
                    | Some entries \<Rightarrow> Inr (unzip_tasks configDir entries)))"

definition writes_to :: "segs \<Rightarrow> xtask \<Rightarrow> bool" where
  "writes_to q t \<longleftrightarrow> (case t of ExtractWrite path b \<Rightarrow> resolve path = q | _ \<Rightarrow> False)"

text \<open>A folder task has done its work when the folder is there or a file
  blocks it for good; a file task, when the path is taken, there is nothing to
  write, or the write cannot succeed for want of a folder.\<close>

definition ensured :: "vault \<Rightarrow> string \<Rightarrow> bool" where
  "ensured v p \<longleftrightarrow> resolve p \<in> dom v \<or> blocked_by_file v [] (resolve p)"

definition extracted :: "vault \<Rightarrow> string \<Rightarrow> bytes option \<Rightarrow> bool" where
  "extracted v p d \<longleftrightarrow>
     resolve p \<in> dom v \<or> d = None \<or> resolve p = [] \<or> v (butlast (resolve p)) \<noteq> Some Folder"

text \<open>A small archive and store used to run the model on concrete inputs: the
  configuration folder \<open>.obsidian\<close> with the plugin's resource folder and one
  custom sound already in it.\<close>

abbreviation demo_base :: segs where
  "demo_base \<equiv> [''.obsidian'', ''plugins'', ''click-clack'', ''resources'']"

abbreviation demo_vault :: vault where
  "demo_vault \<equiv> Map.empty([] \<mapsto> Folder, [''.obsidian''] \<mapsto> Folder,
     [''.obsidian'', ''plugins''] \<mapsto> Folder, [''.obsidian'', ''plugins'', ''click-clack''] \<mapsto> Folder,
     demo_base \<mapsto> Folder, demo_base @ [''key.wav''] \<mapsto> File [7])"

abbreviation demo_entries :: "zip_entry list" where
  "demo_entries \<equiv>
     [\<lparr>filename = ''key.wav'', directory = False, getData = Some [1]\<rparr>,
      \<lparr>filename = ''snd/'', directory = True, getData = None\<rparr>,
      \<lparr>filename = ''snd/a.wav'', directory = False, getData = Some [2]\<rparr>]"

abbreviation demo_race_entries :: "zip_entry list" where
  "demo_race_entries \<equiv>
     [\<lparr>filename = ''snd/'', directory = True, getData = None\<rparr>,
      \<lparr>filename = ''snd/a.wav'', directory = False, getData = Some [2]\<rparr>]"

section \<open>Lemmas\<close>

lemma resolve_basePath [path_simps]:
  "resolve (basePath cfg) = path_segments cfg @ [''plugins'', ''click-clack'', ''resources'']"
proof -
  have j: "join_with slash [cfg, ''plugins'', ''click-clack'', ''resources''] =
        cfg @ slash # ''plugins/click-clack/resources''"
    by (simp add: slash_def)
  have "resolve (basePath cfg) = resolve (join_with slash [cfg, ''plugins'', ''click-clack'', ''resources''])"
    by (simp only: basePath_def resolve_normalizePath)
  also have "\<dots> = path_segments (cfg @ slash # ''plugins/click-clack/resources'')"
    by (simp only: j resolve_def)
  also have "\<dots> = path_segments cfg @ [''plugins'', ''click-clack'', ''resources'']"
    by (simp only: path_segments_def split_on_append_sep filter_append) (simp add: slash_def)
  finally show ?thesis .
qed

lemma resolve_join2 [path_simps]:
  "resolve (join_with slash [a, b]) = resolve a @ path_segments b"
  by (simp only: resolve_def path_segments_join2)

lemma resolve_entry_path [path_simps]:
  "resolve (entry_path base e) = resolve base @ path_segments (filename e)"
  by (simp only: entry_path_def resolve_def path_segments_join2)

lemma path_segments_literal [path_simps]:
  "path_segments s = filter (\<lambda>w. w \<noteq> []) (split_on (CHR ''/'') s)"
  by (simp add: path_segments_def slash_def)

lemmas xstep_simps = xstep.simps
lemmas vault_ops_defs = checkOrCreateFolder_def extract_file_def

lemmas eval_simps = unzip_tasks_def Let_def vault_ops_defs exists_def path_simps
  mkdir_def writeBinary_def

lemma xstep_ranked: "ranked xstep xrank"
proof -
  have "xstep s t = (s', new, es) \<Longrightarrow> t' \<in> set new \<Longrightarrow> xrank t' < xrank t" for s t s' new es t'
    by (cases t) (auto split: if_splits option.splits sum.splits)
  then show ?thesis by (auto simp: ranked_def)
qed

lemma unzip_tasks_no_write: "\<not> writes_to q t" if "t \<in> set (unzip_tasks cfg es)"
  using that by (auto simp: unzip_tasks_def Let_def writes_to_def)

text \<open>Running the tasks through their \<open>await\<close> points, depth first, with
  enough fuel (the sum of their ranks) gives the uninterrupted bodies run one
  after another.\<close>

lemma drain_run_seq:
  "sum_list (map xrank ts) \<le> n \<Longrightarrow> drain n xstep v ts = Some (run_seq v ts)"
proof (induction ts arbitrary: v n)
  case Nil
  then show ?case by (cases n) simp_all
next
  case (Cons t ts)
  show ?case
  proof (cases t)
    case (Ensure name)
    with Cons.prems obtain k where n: "n = Suc (Suc k)" and k: "sum_list (map xrank ts) \<le> k"
      by (cases n; cases "n - 1") auto
    have k1: "sum_list (map xrank ts) \<le> Suc k" using k by simp
    show ?thesis
      using Ensure n Cons.IH [OF k] Cons.IH [OF k1]
      by (auto simp: checkOrCreateFolder_def Let_def case_prod_Pair_iden split: sum.splits)
  next
    case (EnsureMkdir name)
    with Cons.prems obtain k where n: "n = Suc k" and k: "sum_list (map xrank ts) \<le> k"
      by (cases n) auto
    show ?thesis using EnsureMkdir n Cons.IH [OF k] by (auto simp: Let_def case_prod_Pair_iden split: sum.splits)
  next
    case (Extract path d)
    with Cons.prems obtain k where n: "n = Suc (Suc k)" and k: "sum_list (map xrank ts) \<le> k"
      by (cases n; cases "n - 1") auto
    have k1: "sum_list (map xrank ts) \<le> Suc k" using k by simp
    show ?thesis
      using Extract n Cons.IH [OF k] Cons.IH [OF k1]
      by (auto simp: extract_file_def Let_def case_prod_Pair_iden split: sum.splits option.splits)
  next
    case (ExtractWrite path b)
    with Cons.prems obtain k where n: "n = Suc k" and k: "sum_list (map xrank ts) \<le> k"
      by (cases n) auto
    show ?thesis using ExtractWrite n Cons.IH [OF k] by (auto simp: Let_def case_prod_Pair_iden split: sum.splits)
  qed
qed

lemma xstep_grows: "xstep v t = (v', new, es) \<Longrightarrow> grows v v'"
  by (cases t) (auto split: if_splits option.splits sum.splits
                     intro: mkdir_grows writeBinary_grows)

lemma xstep_wf: "xstep v t = (v', new, es) \<Longrightarrow> wf_vault v \<Longrightarrow> wf_vault v'"
  by (cases t) (auto split: if_splits option.splits sum.splits
                     intro: mkdir_wf writeBinary_wf)

lemma xstep_keeps_file:
  assumes "v q = Some (File d)" and "\<not> writes_to q t" and "xstep v t = (v', new, es)"
  shows "v' q = Some (File d) \<and> (\<forall>t' \<in> set new. \<not> writes_to q t')"
proof (cases t)
  case (EnsureMkdir name)
  have "v' q = v q"
  proof (rule ccontr)
    assume ne: "v' q \<noteq> v q"
    from assms(3) EnsureMkdir ne obtain v'' where "mkdir v name = Inr v''" "v'' = v'"
      by (auto split: sum.splits)
    with ne mkdir_new_folders [of v name v'' q] assms(1) show False by simp
  qed
  with assms EnsureMkdir show ?thesis by (auto split: sum.splits)
next
  case (Extract path d')
  with assms show ?thesis
    by (auto simp: writes_to_def exists_def split: if_splits option.splits)
next
  case (ExtractWrite path b)
  with assms show ?thesis
    by (auto simp: writes_to_def writeBinary_eq split: sum.splits)
qed (use assms in \<open>auto simp: writes_to_def split: if_splits\<close>)

lemma resume_keeps_file:
  assumes "(resume xstep)\<^sup>*\<^sup>* w w'" and "store w q = Some (File d)"
    and "\<forall>t \<in># pending w. \<not> writes_to q t"
  shows "store w' q = Some (File d) \<and> (\<forall>t \<in># pending w'. \<not> writes_to q t)"
  using assms
proof (induction rule: rtranclp_induct)
  case (step y z)
  then have y: "store y q = Some (File d)" "\<forall>t \<in># pending y. \<not> writes_to q t" by auto
  from step.hyps(2) obtain t new es where t: "t \<in># pending y"
    and st: "xstep (store y) t = (store z, new, es)"
    and p: "pending z = pending y - {#t#} + mset new"
    by (rule resume_store_cases)
  from xstep_keeps_file [OF y(1) _ st] y(2) t have
    "store z q = Some (File d)" "\<forall>t' \<in> set new. \<not> writes_to q t'" by auto
  with y(2) p show ?case by (auto dest: in_diffD)
qed simp

lemma xrun_grows: "grows v (fst (xrun v t))"
  by (cases t) (auto simp: vault_ops_defs split: sum.splits option.splits
                      intro: mkdir_grows writeBinary_grows)

lemma run_seq_append:
  "run_seq v (xs @ ys) =
     (fst (run_seq (fst (run_seq v xs)) ys), snd (run_seq v xs) @ snd (run_seq (fst (run_seq v xs)) ys))"
  by (induction xs arbitrary: v) (simp_all add: Let_def)

lemma run_seq_grows: "grows v (fst (run_seq v ts))"
  by (induction ts arbitrary: v) (auto simp: Let_def intro: grows_trans xrun_grows)

text \<open>File tasks that write elsewhere leave an absent path absent.\<close>

lemma run_seq_extract_absent:
  "\<forall>(p', d') \<in> set fs. resolve p' \<noteq> q \<Longrightarrow> v q = None \<Longrightarrow>
   fst (run_seq v (map (\<lambda>(p, d). Extract p d) fs)) q = None"
proof (induction fs arbitrary: v)
  case (Cons f fs)
  obtain p' d' where f: "f = (p', d')" by (cases f)
  have "fst (extract_file v p' d') q = None"
    using Cons.prems f by (auto simp: extract_file_def writeBinary_eq split: option.splits sum.splits)
  with Cons f show ?case by (simp add: Let_def)
qed simp

lemma run_seq_keeps_file:
  "v q = Some (File d) \<Longrightarrow> \<forall>t \<in> set ts. \<not> writes_to q t \<Longrightarrow> fst (run_seq v ts) q = Some (File d)"
proof (induction ts arbitrary: v)
  case (Cons t ts)
  have r: "drain (xrank t) xstep v [t] = Some (fst (run_seq v [t]), snd (run_seq v [t]))"
    by (simp add: drain_run_seq)
  from resume_keeps_file [OF drain_resume [OF r, of "{#}" "[]"]] Cons.prems have "fst (run_seq v [t]) q = Some (File d)"
    by simp
  with Cons.IH [of "fst (xrun v t)"] Cons.prems show ?case by (simp add: Let_def)
qed simp

lemma checkOrCreateFolder_adds_only: "adds_only v (fst (checkOrCreateFolder v p))"
  by (auto simp: checkOrCreateFolder_def split: sum.splits intro: mkdir_adds_only)

lemma checkOrCreateFolder_wf: "wf_vault v \<Longrightarrow> wf_vault (fst (checkOrCreateFolder v p))"
  by (auto simp: checkOrCreateFolder_def split: sum.splits intro: mkdir_wf)

lemma extract_file_adds_only: "adds_only v (fst (extract_file v p d))"
  by (auto simp: extract_file_def exists_def domIff split: option.splits sum.splits
           intro: writeBinary_new_adds_only)

lemma extract_file_folders: "fst (extract_file v p d) q = Some Folder \<Longrightarrow> v q = Some Folder"
  by (auto simp: extract_file_def writeBinary_eq split: option.splits sum.splits if_splits)

lemma ensured_noop: "ensured v p \<Longrightarrow> fst (checkOrCreateFolder v p) = v"
  using mkdir_Inl_iff [of v p]
  by (auto simp: ensured_def checkOrCreateFolder_def exists_def split: sum.splits)

lemma ensured_after: "wf_vault v \<Longrightarrow> ensured (fst (checkOrCreateFolder v p)) p"
  using mkdir_Inl_iff [of v p] mkdir_creates [of v p]
  by (auto simp: ensured_def checkOrCreateFolder_def exists_def split: sum.splits)

lemma ensured_mono: "ensured v p \<Longrightarrow> adds_only v v' \<Longrightarrow> ensured v' p"
  unfolding ensured_def using adds_only_dom adds_only_blocked_by_file by blast

lemma extracted_noop: "extracted v p d \<Longrightarrow> fst (extract_file v p d) = v"
  by (auto simp: extracted_def extract_file_def exists_def writeBinary_def Let_def
           split: option.splits)

lemma extracted_after: "extracted (fst (extract_file v p d)) p d"
  by (auto simp: extracted_def extract_file_def exists_def writeBinary_def Let_def
           split: option.splits if_splits)

lemma extracted_mono:
  "extracted v p d \<Longrightarrow> adds_only v v' \<Longrightarrow> \<forall>q. v' q = Some Folder \<longrightarrow> v q = Some Folder \<Longrightarrow>
   extracted v' p d"
  unfolding extracted_def using adds_only_dom by blast

lemma xrun_adds_only: "\<forall>q. \<not> writes_to q t \<Longrightarrow> adds_only v (fst (xrun v t))"
  by (cases t) (auto simp: writes_to_def checkOrCreateFolder_adds_only extract_file_adds_only
                     split: sum.splits intro: mkdir_adds_only)

lemma run_seq_adds_only: "\<forall>t \<in> set ts. \<forall>q. \<not> writes_to q t \<Longrightarrow> adds_only v (fst (run_seq v ts))"
proof (induction ts arbitrary: v)
  case (Cons t ts)
  have "adds_only v (fst (xrun v t))" using Cons.prems by (simp add: xrun_adds_only)
  moreover have "adds_only (fst (xrun v t)) (fst (run_seq (fst (xrun v t)) ts))"
    using Cons by simp
  ultimately have "adds_only v (fst (run_seq (fst (xrun v t)) ts))" by (rule adds_only_trans)
  then show ?case by (simp add: Let_def)
qed simp

lemma run_seq_noop: "\<forall>t \<in> set ts. fst (xrun v t) = v \<Longrightarrow> fst (run_seq v ts) = v"
  by (induction ts) (simp_all add: Let_def)

lemma run_ensures:
  assumes "wf_vault v"
  shows "adds_only v (fst (run_seq v (map Ensure ps))) \<and> wf_vault (fst (run_seq v (map Ensure ps)))
         \<and> (\<forall>p \<in> set ps. ensured (fst (run_seq v (map Ensure ps))) p)"
  using assms
proof (induction ps arbitrary: v)
  case (Cons p ps)
  let ?v1 = "fst (checkOrCreateFolder v p)"
  have w1: "wf_vault ?v1" using Cons.prems by (rule checkOrCreateFolder_wf)
  have e1: "ensured ?v1 p" using Cons.prems by (rule ensured_after)
  from Cons.IH [OF w1] have ih: "adds_only ?v1 (fst (run_seq ?v1 (map Ensure ps)))"
    "wf_vault (fst (run_seq ?v1 (map Ensure ps)))"
    "\<forall>p \<in> set ps. ensured (fst (run_seq ?v1 (map Ensure ps))) p" by auto
  have "adds_only v (fst (run_seq ?v1 (map Ensure ps)))"
    using checkOrCreateFolder_adds_only ih(1) by (rule adds_only_trans)
  moreover have "ensured (fst (run_seq ?v1 (map Ensure ps))) p"
    using e1 ih(1) by (rule ensured_mono)
  ultimately show ?case using ih(2,3) by (simp add: Let_def)
qed simp

lemma run_extracts:
  "adds_only v (fst (run_seq v (map (\<lambda>(p, d). Extract p d) fs)))
   \<and> (\<forall>q. fst (run_seq v (map (\<lambda>(p, d). Extract p d) fs)) q = Some Folder \<longrightarrow> v q = Some Folder)
   \<and> (\<forall>(p, d) \<in> set fs. extracted (fst (run_seq v (map (\<lambda>(p, d). Extract p d) fs))) p d)"
proof (induction fs arbitrary: v)
  case (Cons f fs)
  obtain p d where f: "f = (p, d)" by (cases f)
  let ?v1 = "fst (extract_file v p d)"
  let ?v2 = "fst (run_seq ?v1 (map (\<lambda>(p, d). Extract p d) fs))"
  from Cons.IH [of ?v1] have ih: "adds_only ?v1 ?v2" "\<forall>q. ?v2 q = Some Folder \<longrightarrow> ?v1 q = Some Folder"
    "\<forall>(p, d) \<in> set fs. extracted ?v2 p d" by auto
  have "adds_only v ?v2" using extract_file_adds_only ih(1) by (rule adds_only_trans)
  moreover have "\<forall>q. ?v2 q = Some Folder \<longrightarrow> v q = Some Folder"
    using ih(2) extract_file_folders by blast
  moreover have "extracted ?v2 p d"
    using extracted_after ih(1,2) by (rule extracted_mono)
  ultimately show ?case using ih(3) f by (simp add: Let_def)
qed simp

lemma unzip_tasks_split:
  "unzip_tasks cfg es =
     map Ensure (basePath cfg # map (entry_path (basePath cfg)) (filter directory es))
     @ map (\<lambda>(p, d). Extract p d)
         (map (\<lambda>e. (entry_path (basePath cfg) e, getData e)) (filter (\<lambda>e. \<not> directory e) es))"
  by (simp add: unzip_tasks_def Let_def comp_def)

text \<open>Run one after the other, the extraction tasks have nothing left to do
  once they have run: every folder task finds its folder ensured and every file
  task its file extracted, so a second run on the result changes nothing.\<close>

lemma unzip_tasks_done:
  assumes "wf_vault v" and "t \<in> set (unzip_tasks cfg es)"
  shows "(\<exists>p. t = Ensure p \<and> ensured (fst (run_seq v (unzip_tasks cfg es))) p)
         \<or> (\<exists>p d. t = Extract p d \<and> extracted (fst (run_seq v (unzip_tasks cfg es))) p d)"
proof -
  let ?ps = "basePath cfg # map (entry_path (basePath cfg)) (filter directory es)"
  let ?fs = "map (\<lambda>e. (entry_path (basePath cfg) e, getData e)) (filter (\<lambda>e. \<not> directory e) es)"
  let ?vm = "fst (run_seq v (map Ensure ?ps))"
  let ?v1 = "fst (run_seq ?vm (map (\<lambda>(p, d). Extract p d) ?fs))"
  have v1: "fst (run_seq v (unzip_tasks cfg es)) = ?v1"
    by (simp only: unzip_tasks_split run_seq_append prod.sel)
  from run_ensures [OF assms(1), of ?ps] have em: "\<forall>p \<in> set ?ps. ensured ?vm p" by blast
  from run_extracts [of ?vm ?fs] have ex: "adds_only ?vm ?v1" "\<forall>(p, d) \<in> set ?fs. extracted ?v1 p d"
    by auto
  from assms(2) consider (e) p where "p \<in> set ?ps" "t = Ensure p"
    | (f) p d where "(p, d) \<in> set ?fs" "t = Extract p d"
    unfolding unzip_tasks_split by auto
  then show ?thesis
  proof cases
    case e
    have "ensured ?v1 p" using em e(1) ex(1) by (blast intro: ensured_mono)
    with e(2) v1 show ?thesis by simp
  next
    case f
    have "extracted ?v1 p d" using ex(2) f(1) by blast
    with f(2) v1 show ?thesis by simp
  qed
qed

lemma run_seq_unzip_idem:
  assumes "wf_vault v"
  shows "fst (run_seq (fst (run_seq v (unzip_tasks cfg es))) (unzip_tasks cfg es)) =
         fst (run_seq v (unzip_tasks cfg es))"
proof (rule run_seq_noop, rule ballI)
  fix t assume "t \<in> set (unzip_tasks cfg es)"
  from unzip_tasks_done [OF assms this]
  show "fst (xrun (fst (run_seq v (unzip_tasks cfg es))) t) = fst (run_seq v (unzip_tasks cfg es))"
    by (auto intro: ensured_noop extracted_noop)
qed

section \<open>Properties of the Archive Extractor\<close>

text \<open>C10: extraction never overwrites. Whatever order the started tasks'
  I/O completes in, a file that was in the store when extraction started keeps
  its content: every write is guarded by its own \<open>exists\<close> check, and nothing
  deletes a file between that check and the write.\<close>

theorem unzip_never_overwrites:
  assumes "(resume xstep)\<^sup>*\<^sup>* \<lparr>store = v, pending = mset (unzip_tasks cfg es), rejected = E\<rparr> w"
    and "v q = Some (File d)"
  shows "store w q = Some (File d)"
  using resume_keeps_file [OF assms(1)] assms(2) unzip_tasks_no_write by auto

text \<open>The sequential reading is a schedule of the event loop: running the
  started bodies one after the other, each to its end, is one of the
  interleavings, with the same final store and the same unhandled errors.
  The concrete runs below use it to follow the sequential schedule.\<close>

lemma run_seq_refines:
  "(resume xstep)\<^sup>*\<^sup>* \<lparr>store = v, pending = mset ts + R, rejected = E\<rparr>
     \<lparr>store = fst (run_seq v ts), pending = R, rejected = E @ snd (run_seq v ts)\<rparr>"
proof -
  have "drain (sum_list (map xrank ts)) xstep v ts = Some (fst (run_seq v ts), snd (run_seq v ts))"
    by (simp add: drain_run_seq)
  then show ?thesis by (rule drain_resume)
qed

theorem unzip_never_overwrites_witness:
  "(resume xstep)\<^sup>*\<^sup>* \<lparr>store = demo_vault, pending = mset (unzip_tasks ''.obsidian'' demo_entries), rejected = []\<rparr>
     \<lparr>store = fst (run_seq demo_vault (unzip_tasks ''.obsidian'' demo_entries)), pending = {#},
      rejected = snd (run_seq demo_vault (unzip_tasks ''.obsidian'' demo_entries))\<rparr>
   \<and> demo_vault (demo_base @ [''key.wav'']) = Some (File [7])
   \<and> fst (run_seq demo_vault (unzip_tasks ''.obsidian'' demo_entries)) (demo_base @ [''key.wav''])
       = Some (File [7])"
proof -
  have run: "(resume xstep)\<^sup>*\<^sup>* \<lparr>store = demo_vault, pending = mset (unzip_tasks ''.obsidian'' demo_entries), rejected = []\<rparr>
     \<lparr>store = fst (run_seq demo_vault (unzip_tasks ''.obsidian'' demo_entries)), pending = {#},
      rejected = snd (run_seq demo_vault (unzip_tasks ''.obsidian'' demo_entries))\<rparr>"
    using run_seq_refines [of demo_vault "unzip_tasks ''.obsidian'' demo_entries" "{#}" "[]"] by simp
  have f: "demo_vault (demo_base @ [''key.wav'']) = Some (File [7])" by simp
  show ?thesis using run f unzip_never_overwrites [OF run f] by simp
qed

text \<open>C12: the folder of a file entry may not exist when the file is written.
  \<open>unzip\<close> starts the folder tasks before the file callbacks but awaits none of
  them, so in the schedule where the callback's \<open>exists\<close> and \<open>writeBinary\<close>
  complete before the folder's \<open>exists\<close> and \<open>mkdir\<close>, the write fails with
  an unhandled rejection and the file is missing once everything has run, while
  the sequential reading of the same code writes it. The specification requires
  the folder to be ensured before every file write.\<close>

theorem unzip_folder_race:
  "\<exists>w. (resume xstep)\<^sup>*\<^sup>*
          \<lparr>store = demo_vault, pending = mset (unzip_tasks ''.obsidian'' demo_race_entries), rejected = []\<rparr> w
     \<and> pending w = {#} \<and> rejected w = [StorageWriteFailed]
     \<and> store w (demo_base @ [''snd'']) = Some Folder
     \<and> store w (demo_base @ [''snd'', ''a.wav'']) = None
     \<and> fst (run_seq demo_vault (unzip_tasks ''.obsidian'' demo_race_entries)) (demo_base @ [''snd'', ''a.wav''])
         = Some (File [2])"
proof -
  let ?B = "basePath ''.obsidian''"
  let ?D = "join_with slash [?B, ''snd/'']"
  let ?P = "join_with slash [?B, ''snd/a.wav'']"
  have ts: "unzip_tasks ''.obsidian'' demo_race_entries = [Ensure ?B, Ensure ?D, Extract ?P (Some [2])]"
    by (simp add: unzip_tasks_def Let_def entry_path_def del: join_with.simps)
  have rD: "resolve ?D = demo_base @ [''snd'']"
    by (simp add: path_simps del: join_with.simps)
  have rP: "resolve ?P = demo_base @ [''snd'', ''a.wav'']"
    by (simp add: path_simps del: join_with.simps)
  have rB: "resolve ?B = demo_base"
    by (simp add: path_simps del: join_with.simps)
  have s1: "resume xstep \<lparr>store = demo_vault, pending = mset [Ensure ?B, Ensure ?D, Extract ?P (Some [2])], rejected = []\<rparr>
      \<lparr>store = demo_vault, pending = mset [Ensure ?B, Ensure ?D, ExtractWrite ?P [2]], rejected = []\<rparr>"
    using resume_pick_list [of "Extract ?P (Some [2])" "[Ensure ?B, Ensure ?D, Extract ?P (Some [2])]" xstep
        demo_vault demo_vault "[ExtractWrite ?P [2]]" "[]" "[]"]
    by (simp add: exists_def rP del: join_with.simps)
  have s2: "resume xstep \<lparr>store = demo_vault, pending = mset [Ensure ?B, Ensure ?D, ExtractWrite ?P [2]], rejected = []\<rparr>
      \<lparr>store = demo_vault, pending = mset [Ensure ?B, Ensure ?D] + {#}, rejected = [StorageWriteFailed]\<rparr>"
    using resume_pick_list [of "ExtractWrite ?P [2]" "[Ensure ?B, Ensure ?D, ExtractWrite ?P [2]]" xstep
        demo_vault demo_vault "[]" "[StorageWriteFailed]" "[]"]
    by (simp add: writeBinary_def rP del: join_with.simps)
  have s3: "(resume xstep)\<^sup>*\<^sup>* \<lparr>store = demo_vault, pending = mset [Ensure ?B, Ensure ?D] + {#}, rejected = [StorageWriteFailed]\<rparr>
      \<lparr>store = fst (run_seq demo_vault [Ensure ?B, Ensure ?D]), pending = {#},
       rejected = [StorageWriteFailed] @ snd (run_seq demo_vault [Ensure ?B, Ensure ?D])\<rparr>"
    by (rule run_seq_refines)
  have r: "run_seq demo_vault [Ensure ?B, Ensure ?D] = (demo_vault(demo_base @ [''snd''] \<mapsto> Folder), [])"
    by (simp add: checkOrCreateFolder_def exists_def mkdir_def rB rD del: join_with.simps)
  have seq: "fst (run_seq demo_vault (unzip_tasks ''.obsidian'' demo_race_entries)) (demo_base @ [''snd'', ''a.wav''])
         = Some (File [2])"
    by (simp add: eval_simps)
  from s1 s2 s3 r seq show ?thesis
    unfolding ts by (intro exI [of _ "\<lparr>store = demo_vault(demo_base @ [''snd''] \<mapsto> Folder), pending = {#},
          rejected = [StorageWriteFailed]\<rparr>"]) (auto intro: converse_rtranclp_into_rtranclp)
qed

text \<open>C13: a file callback stores the entry's bytes verbatim. When the file
  callbacks run one after the other, the first entry for a path that is not yet
  in the store and whose folder exists leaves exactly its payload at that path,
  whatever the callbacks before and after it do.\<close>

theorem extract_files_payload:
  assumes "fs = ys @ (p, Some b) # zs"
    and "\<forall>(p', d') \<in> set ys. resolve p' \<noteq> resolve p"
    and "v (resolve p) = None" and "resolve p \<noteq> []"
    and "v (butlast (resolve p)) = Some Folder"
  shows "fst (run_seq v (map (\<lambda>(p, d). Extract p d) fs)) (resolve p) = Some (File b)"
proof -
  let ?v1 = "fst (run_seq v (map (\<lambda>(p, d). Extract p d) ys))"
  have a: "?v1 (resolve p) = None"
    using assms(2,3) by (rule run_seq_extract_absent)
  have "grows v ?v1" by (rule run_seq_grows)
  with assms(5) have par: "?v1 (butlast (resolve p)) = Some Folder"
    by (simp add: grows_def)
  let ?v2 = "fst (xrun ?v1 (Extract p (Some b)))"
  have e: "?v2 (resolve p) = Some (File b)"
    using a par assms(4) by (simp add: extract_file_def exists_def writeBinary_def Let_def domIff)
  have "\<forall>t \<in> set (map (\<lambda>(p, d). Extract p d) zs). \<not> writes_to (resolve p) t"
    by (auto simp: writes_to_def)
  with e have "fst (run_seq ?v2 (map (\<lambda>(p, d). Extract p d) zs)) (resolve p) = Some (File b)"
    by (rule run_seq_keeps_file)
  then show ?thesis using assms(1) by (simp add: run_seq_append Let_def)
qed

theorem extract_files_payload_witness:
  "fst (run_seq demo_vault [Extract ''.obsidian/plugins/click-clack/resources/a.wav'' (Some [3])])
     [''.obsidian'', ''plugins'', ''click-clack'', ''resources'', ''a.wav''] = Some (File [3])"
proof -
  have r: "resolve ''.obsidian/plugins/click-clack/resources/a.wav''
           = [''.obsidian'', ''plugins'', ''click-clack'', ''resources'', ''a.wav'']"
    by (simp add: resolve_def path_simps)
  have "fst (run_seq demo_vault (map (\<lambda>(p, d). Extract p d)
           ([] @ (''.obsidian/plugins/click-clack/resources/a.wav'', Some [3]) # [])))
         (resolve ''.obsidian/plugins/click-clack/resources/a.wav'') = Some (File [3])"
    by (rule extract_files_payload [OF refl]) (simp_all add: r)
  then show ?thesis by (simp add: r)
qed

end
