(* ===== verification/Resolver.thy ===== *)
theory Resolver
  imports Vault
begin

text \<open>
  The Release Asset Resolver, \<open>FetchHelper.fetchAsset\<close> of
  \<open>src/src/fetchHelper.ts\<close>, with its body run without interruption (the
  interleaved version is in \<open>Pipeline\<close>). The host's \<open>requestUrl\<close>
  (\<open>src/typings/obsidian.d.ts\<close>) is a parameter \<open>net\<close>: the response the server
  gives to a request, \<open>None\<close> when the transport fails. A response carries its
  parsed JSON body, as the asset list of a release manifest (\<open>None\<close> when the
  body is no such manifest), and its bytes. The release asset's shape
  (\<open>githubAsset\<close>, whose typing is not in the repository) is the
  specification's: a name and a download URL. \<open>fetchAsset\<close> returns the
  requests it sent, in order, and either an error or the store after the
  archive was written.
\<close>

record asset =
  name :: string
  url :: string

record http_request =
  req_url :: string
  req_headers :: "(string \<times> string) list"

record http_response =
  json :: "asset list option"
  arrayBuffer :: bytes

type_synonym http = "http_request \<Rightarrow> http_response option"

text \<open>\<open>getPlugin('click-clack')?.manifest.version ?? '0.1.0'\<close>: the running
  plugin's version, \<open>None\<close> when the host does not report it.\<close>

definition release_tag :: "string option \<Rightarrow> string" where
  "release_tag installed = (case installed of Some v \<Rightarrow> v | None \<Rightarrow> ''0.1.0'')"

definition metadata_request :: "string option \<Rightarrow> http_request" where
  "metadata_request installed =
     \<lparr>req_url = ''https://api.github.com/repos/acylation/obsidian-click-clack/releases/tags/''
                @ release_tag installed,
      req_headers = []\<rparr>"

definition asset_request :: "string \<Rightarrow> http_request" where
  "asset_request u = \<lparr>req_url = u, req_headers = [(''Accept'', ''application/octet-stream'')]\<rparr>"

definition find_asset :: "string \<Rightarrow> asset list \<Rightarrow> asset option" where
  "find_asset target assets = find (\<lambda>a. name a = target) assets"

text \<open>The metadata half: request the release, read its JSON, find the asset
  (\<open>assetInfo.assets.find\<close>; a missing asset throws).\<close>

definition fetch_metadata :: "http \<Rightarrow> string option \<Rightarrow> string \<Rightarrow> error + asset" where
  "fetch_metadata net installed target =
     (case net (metadata_request installed) of
        None \<Rightarrow> Inl NetworkUnavailable
      | Some r \<Rightarrow> (case json r of
                    None \<Rightarrow> Inl MalformedManifest
                  | Some assets \<Rightarrow> (case find_asset target assets of
                                     None \<Rightarrow> Inl AssetNotFound
                                   | Some a \<Rightarrow> Inr a)))"

definition fetchAsset ::
  "http \<Rightarrow> string option \<Rightarrow> string \<Rightarrow> string \<Rightarrow> vault \<Rightarrow> http_request list \<times> (error + vault)" where
  "fetchAsset net installed target localPath v =
     (case fetch_metadata net installed target of
        Inl e \<Rightarrow> ([metadata_request installed], Inl e)
      | Inr a \<Rightarrow> ([metadata_request installed, asset_request (url a)],
                 (case net (asset_request (url a)) of
                    None \<Rightarrow> Inl NetworkUnavailable
                  | Some r \<Rightarrow> writeBinary v localPath (arrayBuffer r))))"

text \<open>A release manifest with the archive and its signature, as in the
  specification's example, and a server that answers both requests.\<close>

abbreviation demo_assets :: "asset list" where
  "demo_assets \<equiv> [\<lparr>name = ''resources.zip'', url = ''u1''\<rparr>, \<lparr>name = ''resources.zip.sig'', url = ''u2''\<rparr>]"

abbreviation demo_net :: http where
  "demo_net \<equiv> \<lambda>r. if req_url r = ''u1'' then Some \<lparr>json = None, arrayBuffer = [5, 6]\<rparr>
                  else Some \<lparr>json = Some demo_assets, arrayBuffer = []\<rparr>"

section \<open>Lemmas\<close>

lemma find_asset_first:
  "\<forall>b \<in> set ys. name b \<noteq> target \<Longrightarrow> name a = target \<Longrightarrow> find_asset target (ys @ a # zs) = Some a"
  by (induction ys) (auto simp: find_asset_def)

lemma find_asset_None: "find_asset target as = None \<longleftrightarrow> (\<forall>b \<in> set as. name b \<noteq> target)"
  by (auto simp: find_asset_def find_None_iff)

lemma fetch_metadata_Inr:
  "fetch_metadata net inst target = Inr a \<longleftrightarrow>
     (\<exists>r as. net (metadata_request inst) = Some r \<and> json r = Some as \<and> find_asset target as = Some a)"
  by (auto simp: fetch_metadata_def split: option.splits)

lemma fetch_metadata_not_network:
  "fetch_metadata net inst target = Inl e \<Longrightarrow> net (metadata_request inst) \<noteq> None \<Longrightarrow> e \<noteq> NetworkUnavailable"
  by (auto simp: fetch_metadata_def split: option.splits list.splits)

lemma fetchAsset_grows: "snd (fetchAsset net inst target p v) = Inr v' \<Longrightarrow> grows v v'"
  by (auto simp: fetchAsset_def split: sum.splits option.splits intro: writeBinary_grows)

lemma fetchAsset_wf: "snd (fetchAsset net inst target p v) = Inr v' \<Longrightarrow> wf_vault v \<Longrightarrow> wf_vault v'"
  by (auto simp: fetchAsset_def split: sum.splits option.splits intro: writeBinary_wf)

lemma fetchAsset_adds_only:
  "snd (fetchAsset net inst target p v) = Inr v' \<Longrightarrow> v (resolve p) = None \<Longrightarrow> adds_only v v'"
  by (auto simp: fetchAsset_def split: sum.splits option.splits intro: writeBinary_new_adds_only)

section \<open>Properties of the Release Asset Resolver\<close>

text \<open>C14: exact-name match. The asset requested is the first one of the
  manifest whose name is exactly the target: an asset whose name only starts
  with the target (\<open>resources.zip.sig\<close> for \<open>resources.zip\<close>) is never
  taken, and after the metadata request exactly one download request is sent.\<close>

theorem fetchAsset_exact_match:
  assumes "net (metadata_request inst) = Some r" and "json r = Some (ys @ a # zs)"
    and "name a = target" and "\<forall>b \<in> set ys. name b \<noteq> target"
  shows "fst (fetchAsset net inst target p v) = [metadata_request inst, asset_request (url a)]"
proof -
  have "fetch_metadata net inst target = Inr a"
    using assms by (simp add: fetch_metadata_def find_asset_first)
  then show ?thesis by (simp add: fetchAsset_def)
qed

theorem fetchAsset_exact_match_witness:
  "fst (fetchAsset demo_net None ''resources.zip'' ''resources.zip'' Map.empty)
     = [metadata_request None, asset_request ''u1'']
   \<and> req_url (metadata_request None)
       = ''https://api.github.com/repos/acylation/obsidian-click-clack/releases/tags/0.1.0''"
proof -
  have m: "demo_net (metadata_request None) = Some \<lparr>json = Some ([] @ \<lparr>name = ''resources.zip'', url = ''u1''\<rparr>
             # [\<lparr>name = ''resources.zip.sig'', url = ''u2''\<rparr>]), arrayBuffer = []\<rparr>"
    by (simp add: metadata_request_def release_tag_def)
  have "fst (fetchAsset demo_net None ''resources.zip'' ''resources.zip'' Map.empty)
          = [metadata_request None, asset_request (url \<lparr>name = ''resources.zip'', url = ''u1''\<rparr>)]"
    by (rule fetchAsset_exact_match [of demo_net None _ "[]", OF m]) simp_all
  then show ?thesis by (simp add: metadata_request_def release_tag_def)
qed

text \<open>C15: absence is an error and stops the work. When no asset of the
  manifest has the target name, \<open>fetchAsset\<close> fails with \<open>AssetNotFound\<close>
  after the metadata request alone: no download is attempted and nothing is
  written.\<close>

theorem fetchAsset_absent:
  assumes "net (metadata_request inst) = Some r" and "json r = Some as"
    and "\<forall>b \<in> set as. name b \<noteq> target"
  shows "fetchAsset net inst target p v = ([metadata_request inst], Inl AssetNotFound)"
proof -
  from assms(3) have "find_asset target as = None" by (simp add: find_asset_None)
  with assms(1,2) show ?thesis by (simp add: fetchAsset_def fetch_metadata_def)
qed

theorem fetchAsset_absent_witness:
  "fetchAsset demo_net None ''resources.tar'' ''resources.tar'' Map.empty
     = ([metadata_request None], Inl AssetNotFound)"
proof -
  have m: "demo_net (metadata_request None) = Some \<lparr>json = Some demo_assets, arrayBuffer = []\<rparr>"
    by (simp add: metadata_request_def release_tag_def)
  have h: "\<forall>b \<in> set demo_assets. name b \<noteq> ''resources.tar''" by simp
  show ?thesis by (rule fetchAsset_absent [of demo_net None, OF m _ h]) simp
qed

text \<open>C16: the archive is stored verbatim. When the asset is found and its
  bytes arrive, the store afterwards is the store before with exactly those
  bytes at the local path, provided the path's folder exists and no folder is
  in the way.\<close>

theorem fetchAsset_stores_payload:
  assumes "fetch_metadata net inst target = Inr a" and "net (asset_request (url a)) = Some r"
    and "resolve p \<noteq> []" and "v (butlast (resolve p)) = Some Folder" and "v (resolve p) \<noteq> Some Folder"
  shows "fetchAsset net inst target p v =
           ([metadata_request inst, asset_request (url a)], Inr (v(resolve p \<mapsto> File (arrayBuffer r))))"
  using assms by (simp add: fetchAsset_def writeBinary_def Let_def)

theorem fetchAsset_stores_payload_witness:
  "fetchAsset demo_net None ''resources.zip'' ''resources.zip'' (Map.empty([] \<mapsto> Folder)) =
     ([metadata_request None, asset_request ''u1''],
      Inr (Map.empty([] \<mapsto> Folder, [''resources.zip''] \<mapsto> File [5, 6])))"
proof -
  have r: "resolve ''resources.zip'' = [''resources.zip'']"
    by (simp add: resolve_def path_segments_def slash_def)
  have m: "fetch_metadata demo_net None ''resources.zip'' = Inr \<lparr>name = ''resources.zip'', url = ''u1''\<rparr>"
    by (simp add: fetch_metadata_def metadata_request_def release_tag_def find_asset_def)
  have "fetchAsset demo_net None ''resources.zip'' ''resources.zip'' (Map.empty([] \<mapsto> Folder)) =
     ([metadata_request None, asset_request (url \<lparr>name = ''resources.zip'', url = ''u1''\<rparr>)],
      Inr ((Map.empty([] \<mapsto> Folder))(resolve ''resources.zip'' \<mapsto>
        File (arrayBuffer \<lparr>json = None, arrayBuffer = [5, 6]\<rparr>))))"
    by (rule fetchAsset_stores_payload [of demo_net None, OF m]) (simp_all add: r asset_request_def)
  then show ?thesis by (simp add: r)
qed

end
