(* ===== verification/Pipeline.thy ===== *)
theory Pipeline
  imports Extract Resolver
begin

text \<open>
  The Resource Acquisition Pipeline, \<open>FetchHelper.checkOrDownload\<close> and
  \<open>FetchHelper.download\<close> of \<open>src/src/fetchHelper.ts\<close>, driven by the settings
  tab's download button (\<open>src/src/SettingTab.ts\<close>, which awaits
  \<open>checkOrDownload\<close>). The host (\<open>host\<close>) fixes the server's answers, the
  running plugin's version, the configuration folder and the ZIP decoder. The
  shared state \<open>acq\<close> is the store, the log of HTTP requests sent and the
  notices shown. Two readings of the same code are given. \<open>pstep\<close> cuts the
  bodies at their \<open>await\<close>s into the tasks \<open>ptask\<close> of the event loop of
  \<open>Scheduler\<close>; \<open>checkOrDownload_call\<close> is what a click leaves pending: the
  base folder's un-awaited \<open>checkOrCreateFolder\<close> and the \<open>exists\<close> check on the
  archive. The awaits on \<open>response.json\<close>, \<open>arrayBuffer\<close>, \<open>getEntries\<close> and on
  the settled \<open>download\<close> read no shared state and are merged with the await
  before them. \<open>download\<close>, \<open>unzip_seq\<close> and \<open>checkOrDownload_seq\<close> are the
  bodies run without interruption, each started task run to its end at the
  point where it is started.
\<close>

datatype notice =
    Downloading string
  | Downloaded string
  | FetchFailedNotice string error

record host =
  net :: http
  installed :: "string option"
  configDir :: string
  parse :: "bytes \<Rightarrow> zip_entry list option"

record acq =
  disk :: vault
  requests :: "http_request list"
  notices :: "notice list"

definition resourcePath :: "string \<Rightarrow> string" where
  "resourcePath cfg =
     normalizePath (join_with slash [cfg, ''plugins'', ''click-clack'', ''resources''])"

definition zipPath :: "string \<Rightarrow> string" where
  "zipPath cfg =
     normalizePath (join_with slash [cfg, ''plugins'', ''click-clack'', ''resources.zip''])"

definition asset_name :: string where
  "asset_name = ''resources.zip''"

subsection \<open>The bodies run without interruption\<close>

definition download :: "host \<Rightarrow> acq \<Rightarrow> string \<Rightarrow> string \<Rightarrow> acq \<times> (error + unit)" where
  "download h a nm localPath =
     (let a1 = a\<lparr>notices := notices a @ [Downloading nm]\<rparr>;
          r = fetchAsset (net h) (installed h) nm localPath (disk a1)
      in case snd r of
           Inl e \<Rightarrow> (a1\<lparr>requests := requests a1 @ fst r,
                        notices := notices a1 @ [FetchFailedNotice nm e]\<rparr>, Inl (FetchFailed nm))
         | Inr v' \<Rightarrow> (a1\<lparr>disk := v', requests := requests a1 @ fst r,
                         notices := notices a1 @ [Downloaded nm]\<rparr>, Inr ()))"

definition unzip_seq :: "host \<Rightarrow> acq \<Rightarrow> string \<Rightarrow> acq \<times> error list" where
  "unzip_seq h a z =
     (case unzip_start (parse h) (configDir h) (disk a) z of
        Inl e \<Rightarrow> (a, [e])
      | Inr ts \<Rightarrow> (let r = run_seq (disk a) ts in (a\<lparr>disk := fst r\<rparr>, snd r)))"

text \<open>\<open>checkOrDownload\<close> after its un-awaited \<open>checkOrCreateFolder\<close>: the
  \<open>exists\<close> check on the archive and the branch it takes. A rejected
  \<open>download\<close> rejects \<open>checkOrDownload\<close>, and the button's handler awaiting it,
  with nobody to handle the error.\<close>

definition checkOrDownload_rest :: "host \<Rightarrow> acq \<Rightarrow> acq \<times> error list" where
  "checkOrDownload_rest h a =
     (let zp = zipPath (configDir h)
      in if exists (disk a) zp then unzip_seq h a zp
         else (case download h a asset_name zp of
                 (a2, Inl e) \<Rightarrow> (a2, [e])
               | (a2, Inr _) \<Rightarrow> unzip_seq h a2 zp))"

definition checkOrDownload_seq :: "host \<Rightarrow> acq \<Rightarrow> acq \<times> error list" where
  "checkOrDownload_seq h a =
     (let r0 = checkOrCreateFolder (disk a) (resourcePath (configDir h));
          r1 = checkOrDownload_rest h (a\<lparr>disk := fst r0\<rparr>)
      in (fst r1, snd r0 @ snd r1))"

subsection \<open>The bodies cut at their awaits\<close>

datatype ptask =
    X xtask
  | Unzip string
  | CODExists
  | AwaitMeta
  | AwaitAsset string
  | AwaitWrite bytes

definition fetch_failed :: "acq \<Rightarrow> error \<Rightarrow> acq \<times> ptask list \<times> error list" where
  "fetch_failed a e =
     (a\<lparr>notices := notices a @ [FetchFailedNotice asset_name e]\<rparr>, [], [FetchFailed asset_name])"

fun pstep :: "host \<Rightarrow> acq \<Rightarrow> ptask \<Rightarrow> acq \<times> ptask list \<times> error list" where
  "pstep h a (X t) =
     (let r = xstep (disk a) t in (a\<lparr>disk := fst r\<rparr>, map X (fst (snd r)), snd (snd r)))"
| "pstep h a (Unzip z) =
     (case unzip_start (parse h) (configDir h) (disk a) z of
        Inl e \<Rightarrow> (a, [], [e])
      | Inr ts \<Rightarrow> (a, map X ts, []))"
| "pstep h a CODExists =
     (if exists (disk a) (zipPath (configDir h)) then (a, [Unzip (zipPath (configDir h))], [])
      else (a\<lparr>requests := requests a @ [metadata_request (installed h)],
              notices := notices a @ [Downloading asset_name]\<rparr>, [AwaitMeta], []))"
| "pstep h a AwaitMeta =
     (case fetch_metadata (net h) (installed h) asset_name of
        Inl e \<Rightarrow> fetch_failed a e
      | Inr as \<Rightarrow> (a\<lparr>requests := requests a @ [asset_request (url as)]\<rparr>, [AwaitAsset (url as)], []))"
| "pstep h a (AwaitAsset u) =
     (case net h (asset_request u) of
        None \<Rightarrow> fetch_failed a NetworkUnavailable
      | Some r \<Rightarrow> (a, [AwaitWrite (arrayBuffer r)], []))"
| "pstep h a (AwaitWrite d) =
     (case writeBinary (disk a) (zipPath (configDir h)) d of
        Inl e \<Rightarrow> fetch_failed a e
      | Inr v' \<Rightarrow> (a\<lparr>disk := v', notices := notices a @ [Downloaded asset_name]\<rparr>,
                  [Unzip (zipPath (configDir h))], []))"

definition checkOrDownload_call :: "string \<Rightarrow> ptask list" where
  "checkOrDownload_call cfg = [X (Ensure (resourcePath cfg)), CODExists]"

fun prank :: "ptask \<Rightarrow> nat" where
  "prank (X t) = xrank t"
| "prank (Unzip _) = 3"
| "prank (AwaitWrite _) = 4"
| "prank (AwaitAsset _) = 5"
| "prank AwaitMeta = 6"
| "prank CODExists = 7"

text \<open>A task that may write to a path: an extraction write.\<close>

definition pwrites :: "segs \<Rightarrow> ptask \<Rightarrow> bool" where
  "pwrites q t \<longleftrightarrow> (case t of X x \<Rightarrow> writes_to q x | _ \<Rightarrow> False)"

text \<open>A host used to run the model on concrete inputs: the release server of
  \<open>Resolver\<close>, no reported version, the configuration folder \<open>.obsidian\<close>, and
  an archive holding the folder \<open>snd/\<close> and the file \<open>snd/a.wav\<close>; the store
  of \<open>Extract\<close> before the first download, and the same store with the archive
  and its extracted files.\<close>

abbreviation demo_host :: host where
  "demo_host \<equiv> \<lparr>net = demo_net, installed = None, configDir = ''.obsidian'', parse = \<lambda>b. Some demo_race_entries\<rparr>"

abbreviation demo_zip :: segs where
  "demo_zip \<equiv> [''.obsidian'', ''plugins'', ''click-clack'', ''resources.zip'']"

abbreviation demo_acq :: acq where
  "demo_acq \<equiv> \<lparr>disk = demo_vault, requests = [], notices = []\<rparr>"

abbreviation demo_after :: vault where
  "demo_after \<equiv> demo_vault(demo_zip \<mapsto> File [5, 6], demo_base @ [''snd''] \<mapsto> Folder,
                    demo_base @ [''snd'', ''a.wav''] \<mapsto> File [2])"

abbreviation demo_cached :: acq where
  "demo_cached \<equiv> \<lparr>disk = demo_after, requests = [], notices = []\<rparr>"

text \<open>The tasks waiting on the network or on the archive's write.\<close>

fun net_task :: "ptask \<Rightarrow> bool" where
  "net_task AwaitMeta = True"
| "net_task (AwaitAsset _) = True"
| "net_task (AwaitWrite _) = True"
| "net_task _ = False"

section \<open>Lemmas\<close>

lemma unzip_tasks_xrank: "t \<in> set (unzip_tasks cfg es) \<Longrightarrow> xrank t \<le> 2"
  by (auto simp: unzip_tasks_def Let_def)

lemma pstep_ranked: "ranked (pstep h) prank"
proof -
  have "pstep h a t = (a', new, es) \<Longrightarrow> t' \<in> set new \<Longrightarrow> prank t' < prank t" for a t a' new es t'
  proof (cases t)
    case (X x)
    obtain v' n es' where st: "xstep (disk a) x = (v', n, es')" by (cases "xstep (disk a) x") auto
    have "\<forall>y \<in> set n. xrank y < xrank x"
      using xstep_ranked st unfolding ranked_def by blast
    then show ?thesis if "pstep h a t = (a', new, es)" "t' \<in> set new"
      using that X st by auto
  qed (auto simp: fetch_failed_def unzip_start_def split: if_splits option.splits sum.splits
             dest!: unzip_tasks_xrank)
  then show ?thesis by (auto simp: ranked_def)
qed

text \<open>Tasks of the extractor run inside the pipeline touch only the store.\<close>

lemma drain_lift_X:
  "drain n (pstep h) a (map X ts) = map_option (\<lambda>(v, es). (a\<lparr>disk := v\<rparr>, es)) (drain n xstep (disk a) ts)"
proof (induction n arbitrary: a ts)
  case 0
  then show ?case by simp
next
  case (Suc n)
  show ?case
  proof (cases ts)
    case (Cons t ts')
    obtain v' new es where st: "xstep (disk a) t = (v', new, es)" by (cases "xstep (disk a) t") auto
    have "drain (Suc n) (pstep h) a (map X ts) =
            map_option (\<lambda>(s'', es'). (s'', es @ es')) (drain n (pstep h) (a\<lparr>disk := v'\<rparr>) (map X (new @ ts')))"
      using Cons st by (simp add: Let_def)
    also have "\<dots> = map_option (\<lambda>(v, es). (a\<lparr>disk := v\<rparr>, es)) (drain (Suc n) xstep (disk a) ts)"
      using Cons st Suc.IH [of "a\<lparr>disk := v'\<rparr>" "new @ ts'"]
      by (cases "drain n xstep v' (new @ ts')") auto
    finally show ?thesis .
  qed simp
qed

lemma drain_X_run_seq:
  "sum_list (map xrank ts) \<le> n \<Longrightarrow>
   drain n (pstep h) a (map X ts) = Some (a\<lparr>disk := fst (run_seq (disk a) ts)\<rparr>, snd (run_seq (disk a) ts))"
  by (simp add: drain_lift_X drain_run_seq case_prod_beta)

lemma drain_unzip: "\<exists>n. drain n (pstep h) a [Unzip z] = Some (unzip_seq h a z)"
proof (cases "unzip_start (parse h) (configDir h) (disk a) z")
  case (Inl e)
  have st: "pstep h a (Unzip z) = (a, [], [e])" using Inl by simp
  have "\<exists>n. drain n (pstep h) a [] = Some (a, [])" by (rule exI [of _ 0]) simp
  from drain_single_step [of "pstep h", OF st this] Inl show ?thesis
    by (simp add: unzip_seq_def)
next
  case (Inr ts)
  have "\<exists>n. drain n (pstep h) a (map X ts) = Some (a\<lparr>disk := fst (run_seq (disk a) ts)\<rparr>, snd (run_seq (disk a) ts))"
    using drain_X_run_seq by blast
  moreover have st: "pstep h a (Unzip z) = (a, map X ts, [])" using Inr by simp
  ultimately show ?thesis using drain_single_step [of "pstep h", OF st] Inr
    by (simp add: unzip_seq_def Let_def)
qed

lemma drain_Nil_ex: "\<exists>n. drain n step s [] = Some (s, [])"
  by (rule exI [of _ 0]) simp

text \<open>From the metadata request on, the tasks of a download run depth first
  to the end of \<open>download\<close> and, when it succeeds, of \<open>unzip\<close>.\<close>

lemma drain_await_meta:
  fixes h :: host and a :: acq
  defines "a1 \<equiv> a\<lparr>requests := requests a @ [metadata_request (installed h)],
                   notices := notices a @ [Downloading asset_name]\<rparr>"
  shows "\<exists>n. drain n (pstep h) a1 [AwaitMeta] =
           Some (case download h a asset_name (zipPath (configDir h)) of
                   (a2, Inl e) \<Rightarrow> (a2, [e])
                 | (a2, Inr _) \<Rightarrow> unzip_seq h a2 (zipPath (configDir h)))"
proof (cases "fetch_metadata (net h) (installed h) asset_name")
  case (Inl e)
  then have st: "pstep h a1 AwaitMeta = fetch_failed a1 e" by simp
  from drain_single_step [of "pstep h", OF st [unfolded fetch_failed_def] drain_Nil_ex] Inl
  show ?thesis by (simp add: download_def fetchAsset_def a1_def)
next
  case (Inr as)
  let ?a2 = "a1\<lparr>requests := requests a1 @ [asset_request (url as)]\<rparr>"
  have st: "pstep h a1 AwaitMeta = (?a2, [AwaitAsset (url as)], [])" using Inr by simp
  have "\<exists>n. drain n (pstep h) ?a2 [AwaitAsset (url as)] =
           Some (case download h a asset_name (zipPath (configDir h)) of
                   (a2, Inl e) \<Rightarrow> (a2, [e])
                 | (a2, Inr _) \<Rightarrow> unzip_seq h a2 (zipPath (configDir h)))"
  proof (cases "net h (asset_request (url as))")
    case None
    then have st2: "pstep h ?a2 (AwaitAsset (url as)) = fetch_failed ?a2 NetworkUnavailable" by simp
    from drain_single_step [of "pstep h", OF st2 [unfolded fetch_failed_def] drain_Nil_ex] Inr None
    show ?thesis by (simp add: download_def fetchAsset_def a1_def)
  next
    case (Some r)
    have st2: "pstep h ?a2 (AwaitAsset (url as)) = (?a2, [AwaitWrite (arrayBuffer r)], [])"
      using Some by simp
    have "\<exists>n. drain n (pstep h) ?a2 [AwaitWrite (arrayBuffer r)] =
           Some (case download h a asset_name (zipPath (configDir h)) of
                   (a2, Inl e) \<Rightarrow> (a2, [e])
                 | (a2, Inr _) \<Rightarrow> unzip_seq h a2 (zipPath (configDir h)))"
    proof (cases "writeBinary (disk a) (zipPath (configDir h)) (arrayBuffer r)")
      case (Inl e)
      then have st3: "pstep h ?a2 (AwaitWrite (arrayBuffer r)) = fetch_failed ?a2 e"
        by (simp add: a1_def)
      from drain_single_step [of "pstep h", OF st3 [unfolded fetch_failed_def] drain_Nil_ex] Inr Some Inl
      show ?thesis by (simp add: download_def fetchAsset_def a1_def)
    next
      case (Inr v')
      let ?a3 = "?a2\<lparr>disk := v', notices := notices ?a2 @ [Downloaded asset_name]\<rparr>"
      have st3: "pstep h ?a2 (AwaitWrite (arrayBuffer r)) = (?a3, [Unzip (zipPath (configDir h))], [])"
        using Inr by (simp add: a1_def)
      have "?a3 = (a\<lparr>notices := notices a @ [Downloading asset_name]\<rparr>)\<lparr>disk := v',
                requests := requests a @ [metadata_request (installed h), asset_request (url as)],
                notices := notices a @ [Downloading asset_name, Downloaded asset_name]\<rparr>"
        by (cases a) (simp add: a1_def)
      with drain_single_step [of "pstep h", OF st3 drain_unzip] \<open>fetch_metadata _ _ _ = Inr as\<close> Some Inr
      show ?thesis by (simp add: download_def fetchAsset_def del: acq.update_convs)
    qed
    from drain_single_step [of "pstep h", OF st2 this] show ?thesis by simp
  qed
  from drain_single_step [of "pstep h", OF st this] show ?thesis by simp
qed

lemma drain_rest: "\<exists>n. drain n (pstep h) a [CODExists] = Some (checkOrDownload_rest h a)"
proof (cases "exists (disk a) (zipPath (configDir h))")
  case True
  then have st: "pstep h a CODExists = (a, [Unzip (zipPath (configDir h))], [])" by simp
  from drain_single_step [of "pstep h", OF st drain_unzip] True show ?thesis
    by (simp add: checkOrDownload_rest_def)
next
  case False
  then have st: "pstep h a CODExists =
      (a\<lparr>requests := requests a @ [metadata_request (installed h)],
         notices := notices a @ [Downloading asset_name]\<rparr>, [AwaitMeta], [])" by simp
  from drain_single_step [of "pstep h", OF st drain_await_meta] False show ?thesis
    by (simp add: checkOrDownload_rest_def Let_def)
qed

lemma drain_checkOrDownload:
  "\<exists>n. drain n (pstep h) a (checkOrDownload_call (configDir h)) = Some (checkOrDownload_seq h a)"
proof -
  let ?t = "Ensure (resourcePath (configDir h))"
  let ?a1 = "a\<lparr>disk := fst (run_seq (disk a) [?t])\<rparr>"
  have d1: "drain (xrank ?t) (pstep h) a (map X [?t]) = Some (?a1, snd (run_seq (disk a) [?t]))"
    by (rule drain_X_run_seq) simp
  obtain a' es' where r: "checkOrDownload_rest h ?a1 = (a', es')" by (cases "checkOrDownload_rest h ?a1")
  obtain m where d2: "drain m (pstep h) ?a1 [CODExists] = (Some (a', es'))"
    using drain_rest [of h ?a1] r by auto
  from drain_append [OF d1 d2] r have
    "drain (xrank ?t + m) (pstep h) a (checkOrDownload_call (configDir h)) = Some (checkOrDownload_seq h a)"
    by (simp add: checkOrDownload_call_def checkOrDownload_seq_def Let_def)
  then show ?thesis by blast
qed

lemma exists_grows: "exists v p \<Longrightarrow> grows v v' \<Longrightarrow> exists v' p"
  by (auto simp: exists_def grows_def)

lemma pstep_X_grows: "pstep h a (X t) = (a', new, es) \<Longrightarrow> grows (disk a) (disk a')"
  by (cases "xstep (disk a) t") (auto simp: Let_def dest: xstep_grows)

text \<open>With the archive present, the tasks that need no network start none.\<close>

lemma pstep_offline:
  assumes "\<not> net_task t" and "exists (disk a) (zipPath (configDir h))"
    and "pstep h a t = (a', new, es)"
  shows "requests a' = requests a \<and> notices a' = notices a \<and> exists (disk a') (zipPath (configDir h))
         \<and> (\<forall>t' \<in> set new. \<not> net_task t')"
proof (cases t)
  case (X x)
  have "grows (disk a) (disk a')" using assms(3) X by (simp add: pstep_X_grows del: pstep.simps)
  with assms X show ?thesis by (auto simp: Let_def intro: exists_grows)
qed (use assms in \<open>auto simp: unzip_start_def split: sum.splits option.splits\<close>)

lemma unzip_seq_fields:
  "requests (fst (unzip_seq h a z)) = requests a \<and> notices (fst (unzip_seq h a z)) = notices a"
  by (auto simp: unzip_seq_def Let_def split: sum.splits)

lemma unzip_seq_adds_only: "adds_only (disk a) (disk (fst (unzip_seq h a z)))"
  using unzip_tasks_no_write
  by (auto simp: unzip_seq_def unzip_start_def Let_def split: sum.splits option.splits
           intro: run_seq_adds_only)

text \<open>Extracting the same archive again changes nothing: the archive itself is
  kept, so the second run decodes the same entries.\<close>

lemma unzip_seq_twice:
  assumes "wf_vault (disk a)"
  shows "disk (fst (unzip_seq h (fst (unzip_seq h a z)) z)) = disk (fst (unzip_seq h a z))"
proof (cases "unzip_start (parse h) (configDir h) (disk a) z")
  case (Inl e)
  then show ?thesis by (simp add: unzip_seq_def)
next
  case (Inr ts)
  then obtain B es where rb: "disk a (resolve z) = Some (File B)" and pB: "parse h B = Some es"
    and ts: "ts = unzip_tasks (configDir h) es"
    by (auto simp: unzip_start_def readBinary_def split: sum.splits option.splits node.splits)
  let ?v1 = "fst (run_seq (disk a) ts)"
  have "?v1 (resolve z) = Some (File B)"
    using rb unzip_tasks_no_write ts by (blast intro: run_seq_keeps_file)
  then have "unzip_start (parse h) (configDir h) ?v1 z = Inr ts"
    using pB ts by (simp add: unzip_start_def readBinary_def)
  moreover have "fst (run_seq ?v1 ts) = ?v1"
    using run_seq_unzip_idem [OF assms] ts by simp
  ultimately show ?thesis using Inr by (simp add: unzip_seq_def Let_def)
qed

lemma download_Inl_disk: "snd (download h a nm p) = Inl e \<Longrightarrow> disk (fst (download h a nm p)) = disk a"
  by (auto simp: download_def Let_def split: sum.splits)

lemma download_Inr:
  assumes "snd (download h a nm p) = Inr u" and "\<not> exists (disk a) p" and "wf_vault (disk a)"
  shows "adds_only (disk a) (disk (fst (download h a nm p))) \<and> wf_vault (disk (fst (download h a nm p)))"
proof -
  from assms(1) obtain v' where f: "snd (fetchAsset (net h) (installed h) nm p (disk a)) = Inr v'"
    and d: "disk (fst (download h a nm p)) = v'"
    by (auto simp: download_def Let_def split: sum.splits)
  from assms(2) have "disk a (resolve p) = None" by (simp add: exists_def domIff)
  with f d assms(3) show ?thesis by (auto intro: fetchAsset_adds_only fetchAsset_wf)
qed

lemma pstep_keeps_file:
  assumes "disk a q = Some (File d)" and "q \<noteq> resolve (zipPath (configDir h)) \<or> \<not> net_task t"
    and "\<not> pwrites q t" and "pstep h a t = (a', new, es)"
  shows "disk a' q = Some (File d) \<and> (\<forall>t' \<in> set new. \<not> pwrites q t')"
proof (cases t)
  case (X x)
  obtain v' n es' where st: "xstep (disk a) x = (v', n, es')" by (cases "xstep (disk a) x") auto
  from xstep_keeps_file [OF assms(1) _ st] assms(3) X have "v' q = Some (File d)" "\<forall>t' \<in> set n. \<not> writes_to q t'"
    by (auto simp: pwrites_def)
  with assms(4) X st show ?thesis by (auto simp: pwrites_def)
next
  case (Unzip z)
  with assms unzip_tasks_no_write show ?thesis
    by (auto simp: pwrites_def unzip_start_def split: sum.splits option.splits)
next
  case (AwaitWrite b)
  with assms show ?thesis
    by (auto simp: pwrites_def fetch_failed_def writeBinary_eq split: sum.splits)
qed (use assms in \<open>auto simp: pwrites_def fetch_failed_def split: if_splits sum.splits option.splits\<close>)

lemma resolve_zipPath [path_simps]:
  "resolve (zipPath cfg) = path_segments cfg @ [''plugins'', ''click-clack'', ''resources.zip'']"
proof -
  have j: "join_with slash [cfg, ''plugins'', ''click-clack'', ''resources.zip''] =
        cfg @ slash # ''plugins/click-clack/resources.zip''"
    by (simp add: slash_def)
  have "resolve (zipPath cfg) = resolve (join_with slash [cfg, ''plugins'', ''click-clack'', ''resources.zip''])"
    by (simp only: zipPath_def resolve_normalizePath)
  also have "\<dots> = path_segments (cfg @ slash # ''plugins/click-clack/resources.zip'')"
    by (simp only: j resolve_def)
  also have "\<dots> = path_segments cfg @ [''plugins'', ''click-clack'', ''resources.zip'']"
    by (simp only: path_segments_def split_on_append_sep filter_append) (simp add: slash_def)
  finally show ?thesis .
qed

lemma resourcePath_basePath: "resourcePath cfg = basePath cfg"
  by (simp add: resourcePath_def basePath_def)

text \<open>The concrete host, run: the first click downloads and extracts the
  archive, a click with the archive in place only re-runs the extraction.\<close>

lemma demo_ensure: "checkOrCreateFolder demo_vault (resourcePath ''.obsidian'') = (demo_vault, [])"
  by (simp add: checkOrCreateFolder_def exists_def resourcePath_basePath path_simps del: join_with.simps)

lemma demo_download:
  "download demo_host demo_acq asset_name (zipPath ''.obsidian'') =
     (\<lparr>disk = demo_vault(demo_zip \<mapsto> File [5, 6]), requests = [metadata_request None, asset_request ''u1''],
       notices = [Downloading asset_name, Downloaded asset_name]\<rparr>, Inr ())"
  by (simp add: download_def fetchAsset_def fetch_metadata_def find_asset_def metadata_request_def
    release_tag_def asset_request_def writeBinary_def asset_name_def path_simps del: join_with.simps)

lemma demo_extract:
  "run_seq (demo_vault(demo_zip \<mapsto> File [5, 6])) (unzip_tasks ''.obsidian'' demo_race_entries) = (demo_after, [])"
  by (simp add: eval_simps del: join_with.simps)

lemma demo_reextract: "run_seq demo_after (unzip_tasks ''.obsidian'' demo_race_entries) = (demo_after, [])"
  by (simp add: eval_simps del: join_with.simps)

lemma demo_first_click:
  "checkOrDownload_seq demo_host demo_acq =
     (\<lparr>disk = demo_after, requests = [metadata_request None, asset_request ''u1''],
       notices = [Downloading asset_name, Downloaded asset_name]\<rparr>, [])"
proof -
  have "\<not> exists demo_vault (zipPath ''.obsidian'')"
    by (simp add: exists_def path_simps del: join_with.simps)
  moreover have "readBinary (demo_vault(demo_zip \<mapsto> File [5, 6])) (zipPath ''.obsidian'') = Inr [5, 6]"
    by (simp add: readBinary_def path_simps del: join_with.simps)
  ultimately show ?thesis
    using demo_ensure demo_download demo_extract
    by (simp add: checkOrDownload_seq_def checkOrDownload_rest_def unzip_seq_def unzip_start_def
        del: join_with.simps)
qed

lemma demo_cached_click: "checkOrDownload_seq demo_host demo_cached = (demo_cached, [])"
proof -
  have "checkOrCreateFolder demo_after (resourcePath ''.obsidian'') = (demo_after, [])"
    by (simp add: checkOrCreateFolder_def exists_def resourcePath_basePath path_simps del: join_with.simps)
  moreover have "exists demo_after (zipPath ''.obsidian'')"
    by (simp add: exists_def path_simps del: join_with.simps)
  moreover have "readBinary demo_after (zipPath ''.obsidian'') = Inr [5, 6]"
    by (simp add: readBinary_def path_simps del: join_with.simps)
  ultimately show ?thesis
    using demo_reextract
    by (simp add: checkOrDownload_seq_def checkOrDownload_rest_def unzip_seq_def unzip_start_def
        del: join_with.simps)
qed

lemma demo_no_archive: "\<not> exists demo_vault (zipPath ''.obsidian'')"
  by (simp add: exists_def path_simps del: join_with.simps)

lemma demo_first_path:
  "(resume (pstep demo_host))\<^sup>*\<^sup>* \<lparr>store = demo_acq, pending = mset (checkOrDownload_call ''.obsidian''), rejected = []\<rparr>
     \<lparr>store = \<lparr>disk = demo_after, requests = [metadata_request None, asset_request ''u1''],
       notices = [Downloading asset_name, Downloaded asset_name]\<rparr>, pending = {#}, rejected = []\<rparr>"
proof -
  obtain n where "drain n (pstep demo_host) demo_acq (checkOrDownload_call (configDir demo_host))
                    = Some (checkOrDownload_seq demo_host demo_acq)"
    using drain_checkOrDownload by blast
  from drain_resume [OF this [unfolded demo_first_click], of "{#}" "[]"] show ?thesis by simp
qed

lemma demo_cached_path:
  "(resume (pstep demo_host))\<^sup>*\<^sup>* \<lparr>store = demo_cached, pending = mset (checkOrDownload_call ''.obsidian''), rejected = []\<rparr>
     \<lparr>store = demo_cached, pending = {#}, rejected = []\<rparr>"
proof -
  obtain n where "drain n (pstep demo_host) demo_cached (checkOrDownload_call (configDir demo_host))
                    = Some (checkOrDownload_seq demo_host demo_cached)"
    using drain_checkOrDownload by blast
  from drain_resume [OF this [unfolded demo_cached_click], of "{#}" "[]"] show ?thesis by simp
qed

section \<open>Properties of the Resource Acquisition Pipeline\<close>

text \<open>The sequential reading of \<open>checkOrDownload\<close> is a schedule of the event
  loop. From the tasks a click leaves pending, whatever else is pending, the
  event loop can run every started body to its end where it is started and
  reach the store, the request log, the notices and the unhandled errors of
  \<open>checkOrDownload_seq\<close>; the sequential statements below are about this
  schedule.\<close>

lemma pipeline_refines:
  "(resume (pstep h))\<^sup>*\<^sup>* \<lparr>store = a, pending = mset (checkOrDownload_call (configDir h)) + R, rejected = E\<rparr>
     \<lparr>store = fst (checkOrDownload_seq h a), pending = R, rejected = E @ snd (checkOrDownload_seq h a)\<rparr>"
proof -
  obtain n where "drain n (pstep h) a (checkOrDownload_call (configDir h))
                    = Some (fst (checkOrDownload_seq h a), snd (checkOrDownload_seq h a))"
    using drain_checkOrDownload by auto
  then show ?thesis by (rule drain_resume)
qed

text \<open>C17: a download always tells the user, and its caller cannot tell why it
  failed. \<open>download\<close> shows the \<open>Downloading\<close> notice and then exactly one
  more: \<open>Downloaded\<close> when \<open>fetchAsset\<close> stored the archive, the store being
  the one \<open>fetchAsset\<close> left, or the failure notice carrying \<open>fetchAsset\<close>'s
  error. On failure it rejects with the same \<open>FetchFailed\<close> naming the asset,
  whatever the cause: a missing asset and a failed request reach the caller as
  one generic error, where the specification keeps \<open>NetworkUnavailable\<close> and
  \<open>AssetNotFound\<close> apart so that callers can choose to retry or abort.\<close>

theorem download_notifies:
  "case download h a nm p of
     (a', Inl e') \<Rightarrow> e' = FetchFailed nm
       \<and> (\<exists>e. snd (fetchAsset (net h) (installed h) nm p (disk a)) = Inl e
             \<and> notices a' = notices a @ [Downloading nm, FetchFailedNotice nm e])
   | (a', Inr _) \<Rightarrow> snd (fetchAsset (net h) (installed h) nm p (disk a)) = Inr (disk a')
       \<and> notices a' = notices a @ [Downloading nm, Downloaded nm]"
  by (auto simp: download_def Let_def split: sum.splits)

text \<open>C18: a cached archive needs no network. When the archive is in the store
  as the click's tasks start, no interleaving of them, the extraction tasks
  they start included, sends a request or shows a notice.\<close>

theorem cached_archive_no_network:
  assumes "(resume (pstep h))\<^sup>*\<^sup>* \<lparr>store = a, pending = mset (checkOrDownload_call (configDir h)), rejected = E\<rparr> w"
    and "exists (disk a) (zipPath (configDir h))"
  shows "requests (store w) = requests a \<and> notices (store w) = notices a"
proof -
  have "requests (store w) = requests a \<and> notices (store w) = notices a
        \<and> exists (disk (store w)) (zipPath (configDir h)) \<and> (\<forall>t \<in># pending w. \<not> net_task t)"
    using assms(1)
  proof (induction rule: rtranclp_induct)
    case base
    then show ?case using assms(2) by (simp add: checkOrDownload_call_def)
  next
    case (step y z)
    from step.hyps(2) obtain t new es where t: "t \<in># pending y"
      and st: "pstep h (store y) t = (store z, new, es)"
      and p: "pending z = pending y - {#t#} + mset new"
      by (rule resume_store_cases)
    from step.IH t have "\<not> net_task t" by blast
    from pstep_offline [OF this _ st] step.IH have
      "requests (store z) = requests (store y) \<and> notices (store z) = notices (store y)
       \<and> exists (disk (store z)) (zipPath (configDir h)) \<and> (\<forall>t' \<in> set new. \<not> net_task t')"
      by blast
    with step.IH p show ?case by (auto dest: in_diffD)
  qed
  then show ?thesis by blast
qed

theorem cached_archive_no_network_witness:
  "(resume (pstep demo_host))\<^sup>*\<^sup>* \<lparr>store = demo_cached, pending = mset (checkOrDownload_call ''.obsidian''), rejected = []\<rparr>
     \<lparr>store = demo_cached, pending = {#}, rejected = []\<rparr>
   \<and> exists demo_after (zipPath ''.obsidian'')
   \<and> requests demo_cached = [] \<and> notices demo_cached = []"
proof -
  have e: "exists (disk demo_cached) (zipPath (configDir demo_host))"
    by (simp add: exists_def path_simps del: join_with.simps)
  have p: "(resume (pstep demo_host))\<^sup>*\<^sup>* \<lparr>store = demo_cached, pending = mset (checkOrDownload_call (configDir demo_host)),
             rejected = []\<rparr> \<lparr>store = demo_cached, pending = {#}, rejected = []\<rparr>"
    using demo_cached_path by simp
  from cached_archive_no_network [OF p e] p e show ?thesis by simp
qed

text \<open>C19: acquisition is idempotent. Once a click has left the archive in the
  store, a second click, run the same way, sends no request and leaves the
  store exactly as the first left it: the resource folder is there, the archive
  is not fetched again, and extraction skips every entry it already handled.\<close>

theorem checkOrDownload_idempotent:
  assumes "wf_vault (disk a)"
    and "exists (disk (fst (checkOrDownload_seq h a))) (zipPath (configDir h))"
  shows "disk (fst (checkOrDownload_seq h (fst (checkOrDownload_seq h a)))) = disk (fst (checkOrDownload_seq h a))
         \<and> requests (fst (checkOrDownload_seq h (fst (checkOrDownload_seq h a))))
             = requests (fst (checkOrDownload_seq h a))"
proof -
  let ?rp = "resourcePath (configDir h)" and ?zp = "zipPath (configDir h)"
  let ?u1 = "fst (checkOrCreateFolder (disk a) ?rp)"
  let ?a1 = "a\<lparr>disk := ?u1\<rparr>"
  let ?a' = "fst (checkOrDownload_seq h a)"
  have e1: "ensured ?u1 ?rp" using assms(1) by (rule ensured_after)
  have w1: "wf_vault ?u1" using assms(1) by (rule checkOrCreateFolder_wf)
  have first: "?a' = fst (checkOrDownload_rest h ?a1)"
    by (simp add: checkOrDownload_seq_def Let_def)
  obtain b where b: "?a' = fst (unzip_seq h b ?zp)" "wf_vault (disk b)" "adds_only ?u1 (disk b)"
  proof (cases "exists ?u1 ?zp")
    case True
    then have "?a' = fst (unzip_seq h ?a1 ?zp)" using first by (simp add: checkOrDownload_rest_def)
    with w1 show ?thesis using that by simp
  next
    case False
    obtain a2 r where dl: "download h ?a1 asset_name ?zp = (a2, r)" by fastforce
    show ?thesis
    proof (cases r)
      case (Inl e)
      then have "?a' = a2"
        using first False dl by (simp add: checkOrDownload_rest_def)
      with download_Inl_disk [of h ?a1 asset_name ?zp e] dl Inl False assms(2) show ?thesis by simp
    next
      case (Inr u)
      then have "?a' = fst (unzip_seq h a2 ?zp)"
        using first False dl by (simp add: checkOrDownload_rest_def)
      with download_Inr [of h ?a1 asset_name ?zp u] dl Inr False w1 show ?thesis using that by simp
    qed
  qed
  have "adds_only ?u1 (disk ?a')"
    using b(3) unzip_seq_adds_only [of b h ?zp] b(1) by (auto intro: adds_only_trans)
  with e1 have "ensured (disk ?a') ?rp" by (rule ensured_mono)
  then have "fst (checkOrCreateFolder (disk ?a') ?rp) = disk ?a'" by (rule ensured_noop)
  then have "fst (checkOrDownload_seq h ?a') = fst (unzip_seq h ?a' ?zp)"
    using assms(2) by (simp add: checkOrDownload_seq_def checkOrDownload_rest_def Let_def)
  then show ?thesis
    using unzip_seq_twice [OF b(2), of h ?zp] unzip_seq_fields [of h ?a' ?zp] b(1) by simp
qed

theorem checkOrDownload_idempotent_witness:
  "wf_vault demo_vault \<and> exists demo_after (zipPath ''.obsidian'')
   \<and> disk (fst (checkOrDownload_seq demo_host (fst (checkOrDownload_seq demo_host demo_acq)))) = demo_after"
proof -
  have w: "wf_vault (disk demo_acq)" by (simp add: wf_vault_def)
  have e: "exists (disk (fst (checkOrDownload_seq demo_host demo_acq))) (zipPath (configDir demo_host))"
    unfolding demo_first_click by (simp add: exists_def path_simps del: join_with.simps)
  from checkOrDownload_idempotent [OF w e] w e show ?thesis
    unfolding demo_first_click by (simp add: exists_def path_simps del: join_with.simps)
qed

text \<open>C20: two clicks in flight may both download. The pipeline takes no lock:
  when the archive is missing, there is an interleaving of two clicks' tasks in
  which both \<open>exists\<close> checks complete before either download gets anywhere,
  so both send the metadata request and both show the download notice, and two
  downloads of the same archive are under way.\<close>

theorem concurrent_clicks_fetch_twice:
  assumes "\<not> exists (disk a) (zipPath (configDir h))"
  shows "\<exists>w. (resume (pstep h))\<^sup>*\<^sup>*
             \<lparr>store = a, pending = mset (checkOrDownload_call (configDir h) @ checkOrDownload_call (configDir h)),
              rejected = E\<rparr> w
           \<and> requests (store w) = requests a @ [metadata_request (installed h), metadata_request (installed h)]
           \<and> notices (store w) = notices a @ [Downloading asset_name, Downloading asset_name]
           \<and> count (pending w) AwaitMeta = 2"
proof -
  let ?e = "X (Ensure (resourcePath (configDir h)))"
  let ?m = "metadata_request (installed h)"
  let ?a1 = "a\<lparr>requests := requests a @ [?m], notices := notices a @ [Downloading asset_name]\<rparr>"
  let ?a2 = "?a1\<lparr>requests := requests ?a1 @ [?m], notices := notices ?a1 @ [Downloading asset_name]\<rparr>"
  have s1: "resume (pstep h) \<lparr>store = a, pending = mset [?e, CODExists, ?e, CODExists], rejected = E\<rparr>
              \<lparr>store = ?a1, pending = mset (remove1 CODExists [?e, CODExists, ?e, CODExists] @ [AwaitMeta]),
               rejected = E @ []\<rparr>"
    by (rule resume_pick_list) (simp_all add: assms)
  have s2: "resume (pstep h) \<lparr>store = ?a1, pending = mset [?e, ?e, CODExists, AwaitMeta], rejected = E @ []\<rparr>
              \<lparr>store = ?a2, pending = mset (remove1 CODExists [?e, ?e, CODExists, AwaitMeta] @ [AwaitMeta]),
               rejected = (E @ []) @ []\<rparr>"
    by (rule resume_pick_list) (simp_all add: assms)
  from s1 s2 show ?thesis
    by (intro exI [of _ "\<lparr>store = ?a2, pending = mset [?e, ?e, AwaitMeta, AwaitMeta], rejected = E\<rparr>"])
       (auto simp: checkOrDownload_call_def)
qed

theorem concurrent_clicks_fetch_twice_witness:
  "\<not> exists demo_vault (zipPath ''.obsidian'')
   \<and> (\<exists>w. (resume (pstep demo_host))\<^sup>*\<^sup>*
          \<lparr>store = demo_acq, pending = mset (checkOrDownload_call ''.obsidian'' @ checkOrDownload_call ''.obsidian''),
           rejected = []\<rparr> w
        \<and> requests (store w) = [metadata_request None, metadata_request None]
        \<and> notices (store w) = [Downloading asset_name, Downloading asset_name]
        \<and> count (pending w) AwaitMeta = 2)"
  using concurrent_clicks_fetch_twice [of demo_acq demo_host "[]"] demo_no_archive by simp

text \<open>C21: acquisition overwrites no file but the archive. In every interleaving
  of any number of clicks, a file in the store other than the archive keeps its
  content to the end: extraction writes only where \<open>exists\<close> found nothing, and
  the only other write is the archive's.\<close>

theorem pipeline_keeps_files:
  assumes "(resume (pstep h))\<^sup>*\<^sup>* \<lparr>store = a, pending = mset ts, rejected = E\<rparr> w"
    and "set ts \<subseteq> set (checkOrDownload_call (configDir h))"
    and "disk a q = Some (File d)" and "q \<noteq> resolve (zipPath (configDir h))"
  shows "disk (store w) q = Some (File d)"
proof -
  have "disk (store w) q = Some (File d) \<and> (\<forall>t \<in># pending w. \<not> pwrites q t)"
    using assms(1)
  proof (induction rule: rtranclp_induct)
    case base
    have "\<not> pwrites q t" if "t \<in> set ts" for t
      using that assms(2) by (auto simp: checkOrDownload_call_def pwrites_def writes_to_def)
    with assms(3) show ?case by auto
  next
    case (step y z)
    from step.hyps(2) obtain t new es where t: "t \<in># pending y"
      and st: "pstep h (store y) t = (store z, new, es)"
      and p: "pending z = pending y - {#t#} + mset new"
      by (rule resume_store_cases)
    from pstep_keeps_file [OF _ disjI1 [OF assms(4)] _ st] step.IH t have
      "disk (store z) q = Some (File d)" "\<forall>t' \<in> set new. \<not> pwrites q t'" by auto
    with step.IH p show ?case by (auto dest: in_diffD)
  qed
  then show ?thesis by blast
qed

theorem pipeline_keeps_files_witness:
  "(resume (pstep demo_host))\<^sup>*\<^sup>* \<lparr>store = demo_acq, pending = mset (checkOrDownload_call ''.obsidian''), rejected = []\<rparr>
     \<lparr>store = \<lparr>disk = demo_after, requests = [metadata_request None, asset_request ''u1''],
       notices = [Downloading asset_name, Downloaded asset_name]\<rparr>, pending = {#}, rejected = []\<rparr>
   \<and> demo_vault (demo_base @ [''key.wav'']) = Some (File [7])
   \<and> demo_after (demo_base @ [''key.wav'']) = Some (File [7])"
proof -
  have p: "(resume (pstep demo_host))\<^sup>*\<^sup>* \<lparr>store = demo_acq, pending = mset (checkOrDownload_call ''.obsidian''),
             rejected = []\<rparr> \<lparr>store = \<lparr>disk = demo_after, requests = [metadata_request None, asset_request ''u1''],
             notices = [Downloading asset_name, Downloaded asset_name]\<rparr>, pending = {#}, rejected = []\<rparr>"
    by (rule demo_first_path)
  have f: "disk demo_acq (demo_base @ [''key.wav'']) = Some (File [7])" by simp
  have q: "demo_base @ [''key.wav''] \<noteq> resolve (zipPath (configDir demo_host))"
    by (simp add: path_simps del: join_with.simps)
  from pipeline_keeps_files [OF p _ f q] p show ?thesis by simp
qed

end
