(* ===== verification/Feedback.thy ===== *)
theory Feedback
  imports Pipeline
begin

text \<open>
  What a click on the download button guarantees over every schedule of the
  event loop, for the pipeline of \<open>Pipeline\<close> (\<open>FetchHelper.checkOrDownload\<close>,
  \<open>download\<close>, \<open>fetchAsset\<close> and the extraction they start): every schedule ends,
  with nothing left pending, in a state where the archive is stored or the
  failure notice of \<open>download\<close> has been shown, so a user waiting for sounds
  always learns the outcome. The liveness statement uses \<open>inevitable\<close> of
  \<open>Scheduler\<close>.
\<close>

text \<open>The tasks of a click's own chain: the \<open>exists\<close> check on the archive and
  the three awaits of a download.\<close>

definition chain_task :: "ptask \<Rightarrow> bool" where
  "chain_task t \<longleftrightarrow> t = CODExists \<or> net_task t"

text \<open>The user has been answered: the archive is in the store, or a failure
  notice for it was shown.\<close>

definition fed_back :: "host \<Rightarrow> acq \<Rightarrow> bool" where
  "fed_back h a \<longleftrightarrow>
     exists (disk a) (zipPath (configDir h)) \<or> (\<exists>e. FetchFailedNotice asset_name e \<in> set (notices a))"

definition answered_or_waiting :: "host \<Rightarrow> (acq, ptask, error) loop_state \<Rightarrow> bool" where
  "answered_or_waiting h w \<longleftrightarrow> fed_back h (store w) \<or> (\<exists>t \<in># pending w. chain_task t)"

text \<open>The state of a click on a cached archive \<open>B\<close> the decoder rejects: the
  archive is still there, nothing pending needs the network or writes to it,
  the only extraction started is of that archive, no notice was added, and
  the corrupt archive is still to be read or has been rejected.\<close>

definition corrupt_run :: "host \<Rightarrow> acq \<Rightarrow> bytes \<Rightarrow> (acq, ptask, error) loop_state \<Rightarrow> bool" where
  "corrupt_run h a B w \<longleftrightarrow>
     (let zp = zipPath (configDir h)
      in disk (store w) (resolve zp) = Some (File B)
         \<and> (\<forall>t \<in># pending w. \<not> net_task t \<and> \<not> pwrites (resolve zp) t \<and> (\<forall>z. t = Unzip z \<longrightarrow> z = zp))
         \<and> notices (store w) = notices a
         \<and> ((\<exists>t \<in># pending w. t = CODExists \<or> t = Unzip zp) \<or> ArchiveCorrupt \<in> set (rejected w)))"

section \<open>Lemmas\<close>

text \<open>No task takes anything away: the store grows and notices are only
  added.\<close>

lemma pstep_mono:
  assumes "pstep h a t = (a', new, es)"
  shows "grows (disk a) (disk a') \<and> set (notices a) \<subseteq> set (notices a')"
proof (cases t)
  case (X x)
  with assms show ?thesis by (auto simp: Let_def pstep_X_grows [OF assms [unfolded X]])
next
  case (AwaitWrite d)
  with assms show ?thesis by (auto simp: fetch_failed_def split: sum.splits intro: writeBinary_grows)
qed (use assms in \<open>auto simp: fetch_failed_def unzip_start_def split: if_splits sum.splits option.splits\<close>)

lemma fed_back_mono: "fed_back h a \<Longrightarrow> pstep h a t = (a', new, es) \<Longrightarrow> fed_back h a'"
  using pstep_mono unfolding fed_back_def by (blast intro: exists_grows)

text \<open>A task of the chain answers the user or hands on to the next one.\<close>

lemma pstep_chain:
  assumes "chain_task t" and "pstep h a t = (a', new, es)"
  shows "fed_back h a' \<or> (\<exists>t' \<in> set new. chain_task t')"
proof (cases t)
  case CODExists
  with assms show ?thesis by (auto simp: fed_back_def chain_task_def split: if_splits)
next
  case AwaitMeta
  with assms show ?thesis
    by (auto simp: fed_back_def chain_task_def fetch_failed_def split: sum.splits)
next
  case (AwaitAsset u)
  with assms show ?thesis
    by (auto simp: fed_back_def chain_task_def fetch_failed_def split: option.splits)
next
  case (AwaitWrite d)
  with assms show ?thesis
    by (auto simp: fed_back_def chain_task_def fetch_failed_def exists_def writeBinary_eq
             split: sum.splits)
qed (use assms in \<open>simp_all add: chain_task_def\<close>)

lemma answered_or_waiting_step:
  assumes "answered_or_waiting h w" and "resume (pstep h) w w'"
  shows "answered_or_waiting h w'"
proof -
  from assms(2) obtain t new es where t: "t \<in># pending w"
    and st: "pstep h (store w) t = (store w', new, es)"
    and p: "pending w' = pending w - {#t#} + mset new"
    by (rule resume_store_cases)
  show ?thesis
  proof (cases "fed_back h (store w)")
    case True
    with fed_back_mono [OF True st] show ?thesis by (simp add: answered_or_waiting_def)
  next
    case False
    with assms(1) obtain t0 where t0: "t0 \<in># pending w" "chain_task t0"
      by (auto simp: answered_or_waiting_def)
    show ?thesis
    proof (cases "t0 = t")
      case True
      from t0(2) True have "chain_task t" by simp
      from pstep_chain [OF this st] p show ?thesis by (auto simp: answered_or_waiting_def)
    next
      case False
      with t0 have "t0 \<in># pending w - {#t#}" by (simp add: in_diff_count)
      with t0(2) p show ?thesis by (auto simp: answered_or_waiting_def)
    qed
  qed
qed

lemma corrupt_run_step:
  assumes "corrupt_run h a B w" and "resume (pstep h) w w'" and "parse h B = None"
  shows "corrupt_run h a B w'"
proof -
  let ?zp = "zipPath (configDir h)"
  from assms(2) obtain t new es where t: "t \<in># pending w"
    and st: "pstep h (store w) t = (store w', new, es)"
    and p: "pending w' = pending w - {#t#} + mset new"
    and r: "rejected w' = rejected w @ es"
    by (rule resume_store_cases)
  from assms(1) t have f: "disk (store w) (resolve ?zp) = Some (File B)" and nt: "\<not> net_task t"
    and nw: "\<not> pwrites (resolve ?zp) t" and uz: "\<forall>z. t = Unzip z \<longrightarrow> z = ?zp"
    by (auto simp: corrupt_run_def Let_def)
  from pstep_keeps_file [OF f disjI2 [OF nt] nw st] have
    f': "disk (store w') (resolve ?zp) = Some (File B)" and nw': "\<forall>t' \<in> set new. \<not> pwrites (resolve ?zp) t'"
    by auto
  from pstep_offline [OF nt _ st] f have off: "notices (store w') = notices (store w)"
    "\<forall>t' \<in> set new. \<not> net_task t'" by (auto simp: exists_def)
  have n1: "new = [Unzip ?zp]" if "t = CODExists"
    using st f that by (simp add: exists_def domIff)
  have n2: "es = [ArchiveCorrupt]" if "t = Unzip ?zp"
    using st f that assms(3) by (simp add: unzip_start_def readBinary_def)
  have n3: "\<forall>t' \<in> set new. \<forall>z. t' = Unzip z \<longrightarrow> z = ?zp"
  proof (cases t)
    case (X x)
    with st show ?thesis by (cases "xstep (disk (store w)) x") (auto simp: Let_def)
  next
    case (Unzip z)
    with st show ?thesis by (auto simp: unzip_start_def split: sum.splits option.splits)
  qed (use st n1 nt in simp_all)
  have rest: "\<forall>t' \<in># pending w - {#t#}. \<not> net_task t' \<and> \<not> pwrites (resolve ?zp) t' \<and> (\<forall>z. t' = Unzip z \<longrightarrow> z = ?zp)"
    using assms(1) by (auto simp: corrupt_run_def Let_def dest: in_diffD)
  have all: "\<forall>t' \<in># pending w'. \<not> net_task t' \<and> \<not> pwrites (resolve ?zp) t' \<and> (\<forall>z. t' = Unzip z \<longrightarrow> z = ?zp)"
    using rest off(2) nw' n3 unfolding p by auto
  have prog: "(\<exists>t' \<in># pending w'. t' = CODExists \<or> t' = Unzip ?zp) \<or> ArchiveCorrupt \<in> set (rejected w')"
  proof -
    from assms(1) have "(\<exists>t' \<in># pending w. t' = CODExists \<or> t' = Unzip ?zp) \<or> ArchiveCorrupt \<in> set (rejected w)"
      by (simp add: corrupt_run_def Let_def)
    then show ?thesis
    proof
      assume "ArchiveCorrupt \<in> set (rejected w)"
      with r show ?thesis by simp
    next
      assume "\<exists>t' \<in># pending w. t' = CODExists \<or> t' = Unzip ?zp"
      then obtain t0 where t0: "t0 \<in># pending w" "t0 = CODExists \<or> t0 = Unzip ?zp" by blast
      show ?thesis
      proof (cases "t0 = t")
        case True
        show ?thesis
        proof (cases "t = CODExists")
          case True
          with n1 p show ?thesis by simp
        next
          case False
          with t0(2) \<open>t0 = t\<close> have "t = Unzip ?zp" by simp
          with n2 r show ?thesis by simp
        qed
      next
        case False
        with t0 have "t0 \<in># pending w - {#t#}" by (simp add: in_diff_count)
        with t0(2) p show ?thesis by auto
      qed
    qed
  qed
  from assms(1) off(1) have "notices (store w') = notices a" by (simp add: corrupt_run_def Let_def)
  with f' all prog show ?thesis by (simp add: corrupt_run_def Let_def)
qed

section \<open>Properties of a click\<close>

text \<open>C28: a click always gets an answer. On every schedule of the event loop,
  the tasks of a click, with everything they start, run out, and then the
  archive is in the store or the user has been shown the failure notice of
  \<open>download\<close>: no schedule leaves the user without either.\<close>

theorem click_feedback:
  "inevitable (pstep h) (\<lambda>w. pending w = {#} \<and> fed_back h (store w))
     \<lparr>store = a, pending = mset (checkOrDownload_call (configDir h)), rejected = E\<rparr>"
proof (rule ranked_inevitable [OF pstep_ranked, of "answered_or_waiting h"])
  show "answered_or_waiting h w'" if "answered_or_waiting h w" "resume (pstep h) w w'" for w w'
    using that by (rule answered_or_waiting_step)
  show "pending w = {#} \<and> fed_back h (store w)" if "answered_or_waiting h w" "pending w = {#}" for w
    using that by (simp add: answered_or_waiting_def)
  show "answered_or_waiting h \<lparr>store = a, pending = mset (checkOrDownload_call (configDir h)), rejected = E\<rparr>"
    by (simp add: answered_or_waiting_def checkOrDownload_call_def chain_task_def)
qed

theorem click_feedback_witness:
  "inevitable (pstep demo_host) (\<lambda>w. pending w = {#} \<and> fed_back demo_host (store w))
     \<lparr>store = demo_acq, pending = mset (checkOrDownload_call ''.obsidian''), rejected = []\<rparr>
   \<and> pending \<lparr>store = \<lparr>disk = demo_after, requests = [metadata_request None, asset_request ''u1''],
       notices = [Downloading asset_name, Downloaded asset_name]\<rparr>, pending = {#}, rejected = ([] :: error list)\<rparr>
       = {#}
   \<and> fed_back demo_host \<lparr>disk = demo_after, requests = [metadata_request None, asset_request ''u1''],
       notices = [Downloading asset_name, Downloaded asset_name]\<rparr>"
proof -
  have "fed_back demo_host \<lparr>disk = demo_after, requests = [metadata_request None, asset_request ''u1''],
          notices = [Downloading asset_name, Downloaded asset_name]\<rparr>"
    by (simp add: fed_back_def exists_def path_simps del: join_with.simps)
  with click_feedback [of demo_host demo_acq "[]"] show ?thesis by simp
qed

text \<open>C29: a corrupt cached archive is never reported. When the archive in the
  store is one the ZIP reader rejects, on every schedule the click's tasks run
  out with \<open>ArchiveCorrupt\<close> among the unhandled rejections and without a
  single notice: \<open>unzip\<close>'s rejection reaches no handler. The specification
  requires \<open>ArchiveCorrupt\<close> to be surfaced to the user.\<close>

theorem corrupt_archive_unreported:
  assumes "disk a (resolve (zipPath (configDir h))) = Some (File B)" and "parse h B = None"
  shows "inevitable (pstep h)
           (\<lambda>w. pending w = {#} \<and> ArchiveCorrupt \<in> set (rejected w) \<and> notices (store w) = notices a)
           \<lparr>store = a, pending = mset (checkOrDownload_call (configDir h)), rejected = E\<rparr>"
proof (rule ranked_inevitable [OF pstep_ranked, of "corrupt_run h a B"])
  show "corrupt_run h a B w'" if "corrupt_run h a B w" "resume (pstep h) w w'" for w w'
    using that assms(2) by (rule corrupt_run_step)
  show "pending w = {#} \<and> ArchiveCorrupt \<in> set (rejected w) \<and> notices (store w) = notices a"
    if "corrupt_run h a B w" "pending w = {#}" for w
    using that by (simp add: corrupt_run_def Let_def)
  have "resolve (resourcePath (configDir h)) \<noteq> resolve (zipPath (configDir h))"
    by (simp add: resourcePath_basePath path_simps del: join_with.simps)
  then show "corrupt_run h a B \<lparr>store = a, pending = mset (checkOrDownload_call (configDir h)), rejected = E\<rparr>"
    using assms(1)
    by (simp add: corrupt_run_def Let_def checkOrDownload_call_def pwrites_def writes_to_def)
qed

theorem corrupt_archive_unreported_witness:
  "demo_after (resolve (zipPath ''.obsidian'')) = Some (File [5, 6])
   \<and> inevitable (pstep (demo_host\<lparr>parse := \<lambda>b. None\<rparr>))
       (\<lambda>w. pending w = {#} \<and> ArchiveCorrupt \<in> set (rejected w) \<and> notices (store w) = [])
       \<lparr>store = demo_cached, pending = mset (checkOrDownload_call ''.obsidian''), rejected = []\<rparr>"
proof -
  have f: "disk demo_cached (resolve (zipPath (configDir (demo_host\<lparr>parse := \<lambda>b. None\<rparr>)))) = Some (File [5, 6])"
    by (simp add: path_simps del: join_with.simps)
  have "parse (demo_host\<lparr>parse := \<lambda>b. None\<rparr>) [5, 6] = None" by simp
  from corrupt_archive_unreported [OF f this, of "[]"] f show ?thesis by simp
qed

end
