(* ===== verification/Extract_Live.thy ===== *)
theory Extract_Live
  imports Extract "HOL-Library.Sublist"
begin

text \<open>
  Properties of every schedule of the extraction tasks of \<open>Extract\<close>, stated
  with the operator \<open>inevitable\<close> of \<open>Scheduler\<close>. The tasks \<open>unzip\<close> starts
  are independent: a task whose path does not reach below a segment list
  \<open>r\<close> (\<open>reaches\<close>) never changes the store at or below \<open>r\<close>. So a file entry
  whose folder exists is written whatever the other tasks do and however they
  fail (best effort, specification 4.1), and a file entry whose folder nothing
  creates is never written, whatever the order of the entries (specification
  section 8 asks for a defensive folder-ensure before every write).
\<close>

fun xpath :: "xtask \<Rightarrow> string" where
  "xpath (Ensure p) = p"
| "xpath (EnsureMkdir p) = p"
| "xpath (Extract p _) = p"
| "xpath (ExtractWrite p _) = p"

definition reaches :: "segs \<Rightarrow> xtask \<Rightarrow> bool" where
  "reaches r t \<longleftrightarrow> prefix r (resolve (xpath t))"

text \<open>The task of one file entry, before or after its \<open>exists\<close> check, is
  pending, and every other pending task stays clear of \<open>r\<close>.\<close>

definition file_task :: "segs \<Rightarrow> string \<Rightarrow> bytes \<Rightarrow> (vault, xtask, error) loop_state \<Rightarrow> bool" where
  "file_task r p b w \<longleftrightarrow>
     (\<exists>t0 \<in> {Extract p (Some b), ExtractWrite p b}.
        t0 \<in># pending w \<and> (\<forall>t \<in># pending w - {#t0#}. \<not> reaches r t))"

definition clear_of :: "segs \<Rightarrow> (vault, xtask, error) loop_state \<Rightarrow> bool" where
  "clear_of r w \<longleftrightarrow> (\<forall>t \<in># pending w. \<not> reaches r t)"

definition best_effort_inv :: "string \<Rightarrow> bytes \<Rightarrow> (vault, xtask, error) loop_state \<Rightarrow> bool" where
  "best_effort_inv p b w \<longleftrightarrow>
     (store w (resolve p) = Some (File b) \<and> clear_of (resolve p) w)
     \<or> (store w (resolve p) = None \<and> store w (butlast (resolve p)) = Some Folder
        \<and> file_task (resolve p) p b w)"

definition no_parent_inv :: "string \<Rightarrow> bytes \<Rightarrow> (vault, xtask, error) loop_state \<Rightarrow> bool" where
  "no_parent_inv p b w \<longleftrightarrow>
     store w (resolve p) = None \<and> store w (butlast (resolve p)) \<noteq> Some Folder
     \<and> ((StorageWriteFailed \<in> set (rejected w) \<and> clear_of (butlast (resolve p)) w)
        \<or> file_task (butlast (resolve p)) p b w)"

text \<open>A task with nothing left to do on the store \<open>V\<close>: it finds its folder
  or file there, or fails without writing (a file in the way of \<open>mkdir\<close>, no
  folder for the write).\<close>

fun task_done :: "vault \<Rightarrow> xtask \<Rightarrow> bool" where
  "task_done V (Ensure p) = ensured V p"
| "task_done V (EnsureMkdir p) = blocked_by_file V [] (resolve p)"
| "task_done V (Extract p d) = extracted V p d"
| "task_done V (ExtractWrite p b) = (resolve p = [] \<or> V (butlast (resolve p)) \<noteq> Some Folder)"

text \<open>Archives for the concrete runs: a fresh top-level file next to the racing
  folder of \<open>demo_race_entries\<close>, and a file whose folder has no entry of its
  own.\<close>

abbreviation demo_best_entries :: "zip_entry list" where
  "demo_best_entries \<equiv> \<lparr>filename = ''new.wav'', directory = False, getData = Some [4]\<rparr> # demo_race_entries"

abbreviation demo_orphan :: zip_entry where
  "demo_orphan \<equiv> \<lparr>filename = ''snd/a.wav'', directory = False, getData = Some [2]\<rparr>"

section \<open>Lemmas\<close>

lemma mkdir_segs_changes_prefix:
  "mkdir_segs v pre ss = Inr v' \<Longrightarrow> v' q \<noteq> v q \<Longrightarrow> prefix q (pre @ ss)"
proof (induction ss arbitrary: v pre)
  case (Cons s ss)
  from Cons.prems(1) show ?case
  proof (cases rule: mkdir_segs_Cons_cases)
    case new
    show ?thesis
    proof (cases "q = pre @ [s]")
      case False
      with Cons.prems(2) have "v' q \<noteq> (v(pre @ [s] \<mapsto> Folder)) q" by simp
      from Cons.IH [OF new(2) this] show ?thesis by simp
    qed simp
  next
    case old
    from Cons.IH [OF old(2) Cons.prems(2)] show ?thesis by simp
  qed
qed simp

lemma mkdir_changes_prefix: "mkdir v p = Inr v' \<Longrightarrow> v' q \<noteq> v q \<Longrightarrow> prefix q (resolve p)"
  unfolding mkdir_def using mkdir_segs_changes_prefix [of v "[]"] by simp

lemma prefix_butlast_self: "prefix (butlast xs) xs"
  by (induction xs rule: rev_induct) simp_all

text \<open>A task that does not reach \<open>r\<close> leaves the store at and below \<open>r\<close> alone,
  and so do the tasks it continues with, which work on the same path.\<close>

lemma xstep_clear:
  assumes "xstep v t = (v', new, es)" and "\<not> reaches r t" and "prefix r q"
  shows "v' q = v q \<and> (\<forall>t' \<in> set new. xpath t' = xpath t)"
proof (cases t)
  case (EnsureMkdir name)
  have "v' q = v q"
  proof (rule ccontr)
    assume ne: "v' q \<noteq> v q"
    with assms(1) EnsureMkdir obtain v'' where "mkdir v name = Inr v''" "v'' = v'"
      by (auto split: sum.splits)
    with ne have "prefix q (resolve name)" by (blast intro: mkdir_changes_prefix)
    with assms(2,3) EnsureMkdir show False by (auto simp: reaches_def dest: prefix_order.trans)
  qed
  with assms(1) EnsureMkdir show ?thesis by (auto split: sum.splits)
next
  case (ExtractWrite path b)
  with assms show ?thesis by (auto simp: writeBinary_eq reaches_def split: sum.splits)
qed (use assms in \<open>auto split: if_splits option.splits\<close>)

lemma resume_rejected_mono: "resume step w w' \<Longrightarrow> set (rejected w) \<subseteq> set (rejected w')"
  by (auto elim: resume_store_cases)

lemma clear_resume:
  assumes "resume xstep w w'" and "clear_of r w"
  shows "(\<forall>q. prefix r q \<longrightarrow> store w' q = store w q) \<and> clear_of r w'"
proof -
  from assms(1) obtain t new es where t: "t \<in># pending w"
    and st: "xstep (store w) t = (store w', new, es)"
    and p: "pending w' = pending w - {#t#} + mset new"
    by (rule resume_store_cases)
  from assms(2) t have nt: "\<not> reaches r t" by (simp add: clear_of_def)
  have "\<forall>t' \<in> set new. \<not> reaches r t'"
    using xstep_clear [OF st nt prefix_order.refl] nt by (simp add: reaches_def)
  with assms(2) p have "clear_of r w'" by (auto simp: clear_of_def dest: in_diffD)
  with xstep_clear [OF st nt] show ?thesis by blast
qed

text \<open>Another task than \<open>t0\<close> ran: \<open>t0\<close> is still pending, next to what was
  pending with it and the new tasks.\<close>

lemma pick_other:
  assumes "t \<in># P" and "t0 \<in># P" and "t \<noteq> t0"
  shows "t0 \<in># P - {#t#} + N \<and> P - {#t#} + N - {#t0#} = P - {#t0#} - {#t#} + N
         \<and> t \<in># P - {#t0#}"
proof -
  from assms(2,3) have "t0 \<in># P - {#t#}" by (simp add: in_diff_count)
  then obtain M where M: "P - {#t#} = add_mset t0 M" by (blast dest: multi_member_split)
  have "P = add_mset t (P - {#t#})" using assms(1) by simp
  with M have "P = add_mset t (add_mset t0 M)" by simp
  then show ?thesis using assms(3) by simp
qed

text \<open>One step from a state with a pending file task: another task ran, which
  left the store at and below \<open>r\<close> alone, or the file task itself ran.\<close>

lemma file_task_resume:
  assumes "resume xstep w w'" and "file_task r p b w"
  obtains (other) "\<forall>q. prefix r q \<longrightarrow> store w' q = store w q" "file_task r p b w'"
  | (self) t0 new es where "t0 \<in> {Extract p (Some b), ExtractWrite p b}"
      "xstep (store w) t0 = (store w', new, es)" "pending w' = pending w - {#t0#} + mset new"
      "\<forall>t \<in># pending w - {#t0#}. \<not> reaches r t" "rejected w' = rejected w @ es"
proof -
  from assms(2) obtain t0 where t0: "t0 \<in> {Extract p (Some b), ExtractWrite p b}"
    "t0 \<in># pending w" and rest: "\<forall>t \<in># pending w - {#t0#}. \<not> reaches r t"
    unfolding file_task_def by blast
  from assms(1) obtain t new es where t: "t \<in># pending w"
    and st: "xstep (store w) t = (store w', new, es)"
    and p: "pending w' = pending w - {#t#} + mset new" and e: "rejected w' = rejected w @ es"
    by (rule resume_store_cases)
  show ?thesis
  proof (cases "t = t0")
    case True
    from True st have st0: "xstep (store w) t0 = (store w', new, es)" by simp
    from True p have p0: "pending w' = pending w - {#t0#} + mset new" by simp
    show ?thesis by (rule self [OF t0(1) st0 p0 rest e])
  next
    case False
    from pick_other [OF t t0(2) False, of "mset new"] p have "t0 \<in># pending w'"
      and eq: "pending w' - {#t0#} = pending w - {#t0#} - {#t#} + mset new"
      and tr: "t \<in># pending w - {#t0#}" by simp_all
    with rest have nt: "\<not> reaches r t" by blast
    have new: "\<forall>t' \<in> set new. \<not> reaches r t'"
      using xstep_clear [OF st nt prefix_order.refl] nt by (simp add: reaches_def)
    moreover have "\<forall>t' \<in># pending w' - {#t0#}. \<not> reaches r t'"
      unfolding eq set_mset_union set_mset_mset using rest new by (blast dest: in_diffD)
    ultimately have "file_task r p b w'"
      using t0(1) \<open>t0 \<in># pending w'\<close> unfolding file_task_def by blast
    with xstep_clear [OF st nt] show ?thesis by (intro other) blast
  qed
qed

lemma resume_grows: "resume xstep w w' \<Longrightarrow> grows (store w) (store w')"
  by (auto elim: resume_store_cases intro: xstep_grows)

text \<open>The file task's own two steps, on a path that is not yet taken.\<close>

lemma xstep_Extract_absent:
  "v (resolve p) = None \<Longrightarrow> xstep v (Extract p (Some b)) = (v, [ExtractWrite p b], [])"
  by (simp add: exists_def domIff)

lemma xstep_ExtractWrite_parent:
  "v (resolve p) = None \<Longrightarrow> v (butlast (resolve p)) = Some Folder \<Longrightarrow>
   xstep v (ExtractWrite p b) = (v(resolve p \<mapsto> File b), [], [])"
  by (cases "resolve p = []") (simp_all add: writeBinary_def)

lemma xstep_ExtractWrite_no_parent:
  "v (butlast (resolve p)) \<noteq> Some Folder \<Longrightarrow> xstep v (ExtractWrite p b) = (v, [], [StorageWriteFailed])"
  by (simp add: writeBinary_def)

text \<open>After the \<open>exists\<close> check the write is the file's task.\<close>

lemma file_task_checked:
  "pending w' = pending w - {#Extract p (Some b)#} + mset [ExtractWrite p b] \<Longrightarrow>
   \<forall>t \<in># pending w - {#Extract p (Some b)#}. \<not> reaches r t \<Longrightarrow> file_task r p b w'"
  unfolding file_task_def by (intro bexI [of _ "ExtractWrite p b"]) simp_all

lemma best_effort_step:
  assumes r: "resume xstep w w'" and i: "best_effort_inv p b w"
  shows "best_effort_inv p b w'"
proof -
  let ?q = "resolve p"
  consider (written) "store w ?q = Some (File b)" "clear_of ?q w"
    | (waiting) "store w ?q = None" "store w (butlast ?q) = Some Folder" "file_task ?q p b w"
    using i unfolding best_effort_inv_def by (elim disjE conjE) simp_all
  then show ?thesis
  proof cases
    case written
    with clear_resume [OF r written(2)] show ?thesis by (simp add: best_effort_inv_def)
  next
    case waiting
    from r waiting(3) show ?thesis
    proof (cases rule: file_task_resume)
      case other
      from other(1) waiting(1) have "store w' ?q = None" by simp
      moreover from resume_grows [OF r] waiting(2) have "store w' (butlast ?q) = Some Folder"
        by (simp add: grows_def)
      ultimately show ?thesis using other(2) by (simp add: best_effort_inv_def)
    next
      case (self t0 new es)
      from self(1) show ?thesis
      proof
        assume t0: "t0 = Extract p (Some b)"
        with self(2) xstep_Extract_absent [of "store w" p b, OF waiting(1)] have "store w' = store w"
          and "new = [ExtractWrite p b]" by simp_all
        with waiting(1,2) self(3,4) t0 show ?thesis
          by (simp add: best_effort_inv_def file_task_checked)
      next
        assume "t0 \<in> {ExtractWrite p b}"
        with self(2) xstep_ExtractWrite_parent [of "store w" p b, OF waiting(1,2)] have
          "store w' = (store w)(?q \<mapsto> File b)" and "new = []" by simp_all
        with self(3,4) show ?thesis by (simp add: best_effort_inv_def clear_of_def)
      qed
    qed
  qed
qed

lemma no_parent_step:
  assumes r: "resume xstep w w'" and i: "no_parent_inv p b w"
  shows "no_parent_inv p b w'"
proof -
  let ?q = "resolve p" and ?r = "butlast (resolve p)"
  have below: "prefix ?r ?q" by (rule prefix_butlast_self)
  from i have q: "store w ?q = None" and par: "store w ?r \<noteq> Some Folder"
    by (simp_all add: no_parent_inv_def)
  consider (failed) "StorageWriteFailed \<in> set (rejected w)" "clear_of ?r w"
    | (waiting) "file_task ?r p b w"
    using i unfolding no_parent_inv_def by (elim disjE conjE) simp_all
  then show ?thesis
  proof cases
    case failed
    with clear_resume [OF r failed(2)] below q par resume_rejected_mono [OF r] show ?thesis
      by (auto simp: no_parent_inv_def)
  next
    case waiting
    from r waiting show ?thesis
    proof (cases rule: file_task_resume)
      case other
      with below q par show ?thesis by (simp add: no_parent_inv_def)
    next
      case (self t0 new es)
      from self(1) show ?thesis
      proof
        assume t0: "t0 = Extract p (Some b)"
        with self(2) xstep_Extract_absent [of "store w" p b, OF q] have "store w' = store w"
          and "new = [ExtractWrite p b]" by simp_all
        with q par self(3,4) t0 show ?thesis
          by (simp add: no_parent_inv_def file_task_checked)
      next
        assume "t0 \<in> {ExtractWrite p b}"
        with self(2) xstep_ExtractWrite_no_parent [of "store w" p b, OF par] have
          "store w' = store w" "new = []" "es = [StorageWriteFailed]" by simp_all
        with q par self(3,4,5) show ?thesis by (simp add: no_parent_inv_def clear_of_def)
      qed
    qed
  qed
qed

lemma xstep_done:
  assumes "task_done V t" and "xstep V t = (V', new, es)"
  shows "V' = V \<and> (\<forall>t' \<in> set new. task_done V t')"
proof (cases t)
  case (Ensure p)
  with assms show ?thesis by (auto simp: ensured_def exists_def split: if_splits)
next
  case (EnsureMkdir p)
  with assms(1) obtain e where "mkdir V p = Inl e" using mkdir_Inl_iff [of V p] by auto
  with assms(2) EnsureMkdir show ?thesis by simp
next
  case (Extract p d)
  with assms show ?thesis by (auto simp: extracted_def exists_def split: if_splits option.splits)
next
  case (ExtractWrite p b)
  with assms show ?thesis by (auto simp: writeBinary_def)
qed

lemma resume_done:
  assumes "(resume xstep)\<^sup>*\<^sup>* w w'" and "store w = V" and "\<forall>t \<in># pending w. task_done V t"
  shows "store w' = V \<and> (\<forall>t \<in># pending w'. task_done V t)"
  using assms
proof (induction rule: rtranclp_induct)
  case (step y z)
  then have y: "store y = V" "\<forall>t \<in># pending y. task_done V t" by auto
  from step.hyps(2) obtain t new es where t: "t \<in># pending y"
    and st: "xstep (store y) t = (store z, new, es)"
    and p: "pending z = pending y - {#t#} + mset new"
    by (rule resume_store_cases)
  from xstep_done [of V t "store z" new es] y t st have "store z = V" "\<forall>t' \<in> set new. task_done V t'"
    by auto
  with y(2) p show ?case by (auto dest: in_diffD)
qed simp

lemma unzip_tasks_file_split:
  "\<not> directory e \<Longrightarrow> mset (unzip_tasks cfg (xs @ e # ys)) =
     add_mset (Extract (entry_path (basePath cfg) e) (getData e)) (mset (unzip_tasks cfg (xs @ ys)))"
  by (simp add: unzip_tasks_def Let_def)

lemma file_task_start:
  assumes "\<not> directory e" and "getData e = Some b"
    and "\<forall>t \<in> set (unzip_tasks cfg (xs @ ys)). \<not> reaches r t"
  shows "file_task r (entry_path (basePath cfg) e) b
           \<lparr>store = v, pending = mset (unzip_tasks cfg (xs @ e # ys)), rejected = E\<rparr>"
  unfolding file_task_def using assms
  by (intro bexI [of _ "Extract (entry_path (basePath cfg) e) (Some b)"]) (simp_all add: unzip_tasks_file_split)

text \<open>Tasks clear of \<open>r\<close> may be added next to a file task.\<close>

lemma file_task_add:
  assumes "file_task r p b w" and "\<forall>t \<in># M. \<not> reaches r t"
  shows "file_task r p b (w\<lparr>pending := M + pending w\<rparr>)"
proof -
  from assms(1) obtain t0 where t0: "t0 \<in> {Extract p (Some b), ExtractWrite p b}"
    "t0 \<in># pending w" and rest: "\<forall>t \<in># pending w - {#t0#}. \<not> reaches r t"
    unfolding file_task_def by blast
  from t0(2) have eq: "M + pending w - {#t0#} = M + (pending w - {#t0#})"
    by (intro multiset_diff_union_assoc) simp
  have "t0 \<in># M + pending w" using t0(2) by simp
  moreover have "\<forall>t \<in># M + pending w - {#t0#}. \<not> reaches r t"
    unfolding eq set_mset_union using rest assms(2) by blast
  moreover have "pending (w\<lparr>pending := M + pending w\<rparr>) = M + pending w" by simp
  ultimately show ?thesis using t0(1) unfolding file_task_def by (intro bexI [of _ t0]) simp_all
qed

section \<open>Properties of every schedule of the extraction\<close>

text \<open>C30: extraction is best effort. A file entry whose path is free and whose
  folder exists when \<open>unzip\<close> starts its tasks, and below which no other task
  works, is stored with its payload at the end of every schedule, whatever the
  other tasks do and however many of their writes fail.\<close>

theorem unzip_best_effort:
  assumes "\<not> directory e" and "getData e = Some b"
    and "v (resolve (entry_path (basePath cfg) e)) = None"
    and "v (butlast (resolve (entry_path (basePath cfg) e))) = Some Folder"
    and "\<forall>t \<in> set (unzip_tasks cfg (xs @ ys)). \<not> reaches (resolve (entry_path (basePath cfg) e)) t"
  shows "inevitable xstep
           (\<lambda>w. pending w = {#} \<and> store w (resolve (entry_path (basePath cfg) e)) = Some (File b))
           \<lparr>store = v, pending = mset (unzip_tasks cfg (xs @ e # ys)), rejected = E\<rparr>"
proof (rule ranked_inevitable [OF xstep_ranked, of "best_effort_inv (entry_path (basePath cfg) e) b"])
  show "best_effort_inv (entry_path (basePath cfg) e) b w'"
    if "best_effort_inv (entry_path (basePath cfg) e) b w" "resume xstep w w'" for w w'
    using that(2,1) by (rule best_effort_step)
  show "pending w = {#} \<and> store w (resolve (entry_path (basePath cfg) e)) = Some (File b)"
    if "best_effort_inv (entry_path (basePath cfg) e) b w" "pending w = {#}" for w
    using that by (auto simp: best_effort_inv_def file_task_def)
  show "best_effort_inv (entry_path (basePath cfg) e) b
          \<lparr>store = v, pending = mset (unzip_tasks cfg (xs @ e # ys)), rejected = E\<rparr>"
    using assms(3,4) file_task_start [OF assms(1,2,5)] by (simp add: best_effort_inv_def)
qed

theorem unzip_best_effort_witness:
  "inevitable xstep (\<lambda>w. pending w = {#} \<and> store w (demo_base @ [''new.wav'']) = Some (File [4]))
     \<lparr>store = demo_vault, pending = mset (unzip_tasks ''.obsidian'' demo_best_entries), rejected = []\<rparr>"
proof -
  have r: "resolve (entry_path (basePath ''.obsidian'') (hd demo_best_entries)) = demo_base @ [''new.wav'']"
    by (simp add: path_simps)
  have c: "\<forall>t \<in> set (unzip_tasks ''.obsidian'' ([] @ demo_race_entries)). \<not> reaches (demo_base @ [''new.wav'']) t"
    by (simp add: unzip_tasks_def Let_def reaches_def path_simps)
  show ?thesis
    using unzip_best_effort [of "hd demo_best_entries" "[4]" demo_vault "''.obsidian''" "[]" demo_race_entries "[]"] r c
    by simp
qed

text \<open>C31: no folder is ensured before a file write. A file entry whose folder
  is not in the store, and which no directory entry (nor the base folder) leads
  to, is never written: every schedule ends with the write's
  \<open>StorageWriteFailed\<close> among the unhandled rejections and the path still
  free. The specification asks the extractor to ensure the parent folder of
  every file before writing it.\<close>

theorem unzip_missing_parent:
  assumes "\<not> directory e" and "getData e = Some b"
    and "v (resolve (entry_path (basePath cfg) e)) = None"
    and "v (butlast (resolve (entry_path (basePath cfg) e))) \<noteq> Some Folder"
    and "\<forall>t \<in> set (unzip_tasks cfg (xs @ ys)). \<not> reaches (butlast (resolve (entry_path (basePath cfg) e))) t"
  shows "inevitable xstep
           (\<lambda>w. pending w = {#} \<and> store w (resolve (entry_path (basePath cfg) e)) = None
                \<and> StorageWriteFailed \<in> set (rejected w))
           \<lparr>store = v, pending = mset (unzip_tasks cfg (xs @ e # ys)), rejected = E\<rparr>"
proof (rule ranked_inevitable [OF xstep_ranked, of "no_parent_inv (entry_path (basePath cfg) e) b"])
  show "no_parent_inv (entry_path (basePath cfg) e) b w'"
    if "no_parent_inv (entry_path (basePath cfg) e) b w" "resume xstep w w'" for w w'
    using that(2,1) by (rule no_parent_step)
  show "pending w = {#} \<and> store w (resolve (entry_path (basePath cfg) e)) = None
          \<and> StorageWriteFailed \<in> set (rejected w)"
    if "no_parent_inv (entry_path (basePath cfg) e) b w" "pending w = {#}" for w
    using that by (auto simp: no_parent_inv_def file_task_def)
  show "no_parent_inv (entry_path (basePath cfg) e) b
          \<lparr>store = v, pending = mset (unzip_tasks cfg (xs @ e # ys)), rejected = E\<rparr>"
    using assms(3,4) file_task_start [OF assms(1,2,5)] by (simp add: no_parent_inv_def)
qed



theorem unzip_missing_parent_witness:
  "inevitable xstep
     (\<lambda>w. pending w = {#} \<and> store w (demo_base @ [''snd'', ''a.wav'']) = None
          \<and> StorageWriteFailed \<in> set (rejected w))
     \<lparr>store = demo_vault, pending = mset (unzip_tasks ''.obsidian'' [demo_orphan]), rejected = []\<rparr>"
proof -
  have r: "resolve (entry_path (basePath ''.obsidian'') demo_orphan) = demo_base @ [''snd'', ''a.wav'']"
    by (simp add: path_simps)
  have c: "\<forall>t \<in> set (unzip_tasks ''.obsidian'' ([] @ [])). \<not> reaches (demo_base @ [''snd'']) t"
    by (simp add: unzip_tasks_def Let_def reaches_def path_simps)
  show ?thesis
    using unzip_missing_parent [of demo_orphan "[2]" demo_vault "''.obsidian''" "[]" "[]" "[]"] r c
    by simp
qed


text \<open>C32: extraction is idempotent on every schedule. Once the extraction
  tasks have run one after the other to their end, a second extraction of the
  same archive leaves the store as it is, in every interleaving of its tasks: each
  task finds its folder or file in place or fails without writing. (After an
  interleaved first run this can fail: the folder race of C12 leaves a file for
  the second run to write.)\<close>

theorem unzip_rerun_stable:
  assumes "wf_vault v"
    and "(resume xstep)\<^sup>*\<^sup>*
           \<lparr>store = fst (run_seq v (unzip_tasks cfg es)), pending = mset (unzip_tasks cfg es), rejected = E\<rparr> w"
  shows "store w = fst (run_seq v (unzip_tasks cfg es))"
proof -
  have "\<forall>t \<in># mset (unzip_tasks cfg es). task_done (fst (run_seq v (unzip_tasks cfg es))) t"
    using unzip_tasks_done [OF assms(1)] by fastforce
  with resume_done [OF assms(2)] show ?thesis by simp
qed

theorem unzip_rerun_stable_witness:
  "(resume xstep)\<^sup>*\<^sup>*
     \<lparr>store = fst (run_seq demo_vault (unzip_tasks ''.obsidian'' demo_entries)),
      pending = mset (unzip_tasks ''.obsidian'' demo_entries), rejected = []\<rparr>
     \<lparr>store = fst (run_seq (fst (run_seq demo_vault (unzip_tasks ''.obsidian'' demo_entries)))
                 (unzip_tasks ''.obsidian'' demo_entries)),
      pending = {#},
      rejected = snd (run_seq (fst (run_seq demo_vault (unzip_tasks ''.obsidian'' demo_entries)))
                 (unzip_tasks ''.obsidian'' demo_entries))\<rparr>
   \<and> fst (run_seq (fst (run_seq demo_vault (unzip_tasks ''.obsidian'' demo_entries)))
       (unzip_tasks ''.obsidian'' demo_entries))
     = fst (run_seq demo_vault (unzip_tasks ''.obsidian'' demo_entries))"
proof -
  let ?V = "fst (run_seq demo_vault (unzip_tasks ''.obsidian'' demo_entries))"
  let ?ts = "unzip_tasks ''.obsidian'' demo_entries"
  have run: "(resume xstep)\<^sup>*\<^sup>* \<lparr>store = ?V, pending = mset ?ts, rejected = []\<rparr>
      \<lparr>store = fst (run_seq ?V ?ts), pending = {#}, rejected = snd (run_seq ?V ?ts)\<rparr>"
    using run_seq_refines [of ?V ?ts "{#}" "[]"] by simp
  have w: "wf_vault demo_vault" by (simp add: wf_vault_def)
  show ?thesis using run unzip_rerun_stable [OF w run] by simp
qed

end
