(* ===== verification/Install.thy ===== *)
theory Install
  imports Feedback Extract_Live
begin

text \<open>
  What a click on the download button installs, over every schedule of the
  pipeline's event loop: the composition of the pipeline of \<open>Pipeline\<close>
  (\<open>checkOrDownload\<close> on a cached archive: its \<open>exists\<close> check and the
  \<open>unzip\<close> it starts) with the extraction properties of \<open>Extract_Live\<close>. The
  link is a simulation: once only extraction tasks are pending, each step of
  \<open>pstep\<close> is a step of \<open>xstep\<close> on the store (\<open>resume_X_view\<close>), so the
  best-effort invariant of the extractor carries over. Before that the click's
  own tasks and the base folder's \<open>checkOrCreateFolder\<close> leave the file's path
  and its folder alone.
\<close>

text \<open>The server hands out the archive \<open>B\<close>: the release metadata names the
  asset, and its download answers with \<open>B\<close> (\<open>fetchAsset\<close>).\<close>

definition serves :: "host \<Rightarrow> bytes \<Rightarrow> bool" where
  "serves h B \<longleftrightarrow>
     (case fetch_metadata (net h) (installed h) asset_name of
        Inl _ \<Rightarrow> False
      | Inr as \<Rightarrow> map_option arrayBuffer (net h (asset_request (url as))) = Some B)"

text \<open>Where the click's own chain stands on its way to the archive \<open>B\<close>: the
  \<open>exists\<close> check, with the archive cached or still to be downloaded, the
  three awaits of the download, or \<open>unzip\<close> with the archive in place.\<close>

fun zip_phase :: "host \<Rightarrow> bytes \<Rightarrow> vault \<Rightarrow> ptask \<Rightarrow> bool" where
  "zip_phase h B v CODExists =
     (let zq = resolve (zipPath (configDir h))
      in v zq = Some (File B) \<or> (v zq = None \<and> v (butlast zq) = Some Folder \<and> serves h B))"
| "zip_phase h B v AwaitMeta =
     (let zq = resolve (zipPath (configDir h))
      in v zq = None \<and> v (butlast zq) = Some Folder \<and> serves h B)"
| "zip_phase h B v (AwaitAsset u) =
     (let zq = resolve (zipPath (configDir h))
      in v zq = None \<and> v (butlast zq) = Some Folder
         \<and> map_option arrayBuffer (net h (asset_request u)) = Some B)"
| "zip_phase h B v (AwaitWrite d) =
     (let zq = resolve (zipPath (configDir h))
      in v zq = None \<and> v (butlast zq) = Some Folder \<and> d = B)"
| "zip_phase h B v (Unzip z) = (z = zipPath (configDir h) \<and> v (resolve z) = Some (File B))"
| "zip_phase h B v (X t) = False"

text \<open>A click that leads to the archive \<open>B\<close>, followed for the file entry \<open>p\<close>
  with payload \<open>b\<close>: either the click's chain is under way, the path is free and
  its folder there, and besides the base folder's task nothing else is pending;
  or only extraction tasks are pending and they satisfy the extractor's
  best-effort invariant.\<close>

definition click_inv ::
  "host \<Rightarrow> bytes \<Rightarrow> string \<Rightarrow> bytes \<Rightarrow> (acq, ptask, error) loop_state \<Rightarrow> bool" where
  "click_inv h B p b w \<longleftrightarrow>
     (let rp = resourcePath (configDir h) in
      (disk (store w) (resolve p) = None \<and> disk (store w) (butlast (resolve p)) = Some Folder
       \<and> (\<exists>t0. zip_phase h B (disk (store w)) t0 \<and> t0 \<in># pending w
            \<and> (\<forall>t \<in># pending w - {#t0#}. t \<in> {X (Ensure rp), X (EnsureMkdir rp)})))
      \<or> (\<exists>M. pending w = image_mset X M
            \<and> best_effort_inv p b \<lparr>store = disk (store w), pending = M, rejected = rejected w\<rparr>))"

section \<open>Lemmas\<close>

text \<open>With only extraction tasks pending, the pipeline's event loop is the
  extractor's on the store.\<close>

lemma resume_X_view:
  assumes "resume (pstep h) w w'" and "pending w = image_mset X M"
  shows "\<exists>M'. pending w' = image_mset X M'
           \<and> resume xstep \<lparr>store = disk (store w), pending = M, rejected = rejected w\<rparr>
                \<lparr>store = disk (store w'), pending = M', rejected = rejected w'\<rparr>"
proof -
  from assms(1) obtain t new es where t: "t \<in># pending w"
    and st: "pstep h (store w) t = (store w', new, es)"
    and p: "pending w' = pending w - {#t#} + mset new" and e: "rejected w' = rejected w @ es"
    by (rule resume_store_cases)
  from t assms(2) obtain u where u: "u \<in># M" "t = X u" by auto
  obtain v' n es' where x: "xstep (disk (store w)) u = (v', n, es')"
    by (cases "xstep (disk (store w)) u") auto
  from st u(2) x have s': "store w' = (store w)\<lparr>disk := v'\<rparr>" "new = map X n" "es = es'"
    by (auto simp: Let_def)
  then have "disk (store w') = v'" and nX: "new = map X n" and "es = es'" by simp_all
  from u(1) have diff: "image_mset X M - {#X u#} = image_mset X (M - {#u#})"
    by (simp add: image_mset_Diff)
  have pw: "pending w' = image_mset X (M - {#u#} + mset n)"
    by (simp only: p assms(2) u(2) nX diff mset_map image_mset_union)
  have "resume xstep \<lparr>store = disk (store w), pending = M, rejected = rejected w\<rparr>
          \<lparr>store = v', pending = M - {#u#} + mset n, rejected = rejected w @ es'\<rparr>"
    using resume.pick [where step = xstep and t = u and s' = v' and new = n and es = es'
        and w = "\<lparr>store = disk (store w), pending = M, rejected = rejected w\<rparr>"] x u(1)
    by simp
  then have "resume xstep \<lparr>store = disk (store w), pending = M, rejected = rejected w\<rparr>
      \<lparr>store = disk (store w'), pending = M - {#u#} + mset n, rejected = rejected w'\<rparr>"
    unfolding e \<open>es = es'\<close> \<open>disk (store w') = v'\<close> .
  with pw show ?thesis by blast
qed

lemma image_mset_X_ex:
  "\<forall>t \<in># R. \<exists>u. t = X u \<and> P u \<Longrightarrow> \<exists>M. R = image_mset X M \<and> (\<forall>u \<in># M. P u)"
proof (induction R)
  case (add t R)
  then obtain u M where "t = X u" "P u" "R = image_mset X M" "\<forall>u \<in># M. P u" by auto
  then show ?case by (intro exI [of _ "add_mset u M"]) simp
qed simp

text \<open>The base folder's task, \<open>checkOrCreateFolder (resourcePath ...)\<close>, before
  and after its \<open>exists\<close> check.\<close>

lemma base_task_step:
  assumes "u \<in> {Ensure rp, EnsureMkdir rp}" and "xstep v u = (v', n, es)"
  shows "\<forall>u' \<in> set n. u' = EnsureMkdir rp"
  using assms by (auto split: if_splits sum.splits)

lemma base_task_clear:
  assumes "\<forall>t \<in> set (unzip_tasks (configDir h) (xs @ ys)). \<not> reaches r t"
    and "u \<in> {Ensure (resourcePath (configDir h)), EnsureMkdir (resourcePath (configDir h))}"
  shows "\<not> reaches r u"
proof -
  have "Ensure (basePath (configDir h)) \<in> set (unzip_tasks (configDir h) (xs @ ys))"
    by (simp add: unzip_tasks_def Let_def)
  with assms show ?thesis by (auto simp: reaches_def resourcePath_basePath)
qed

text \<open>The archive lies next to the resource folder, not inside it: neither
  path leads to the other.\<close>

lemma zip_base_apart:
  "\<not> prefix (resolve (basePath cfg)) (resolve (zipPath cfg))"
  "\<not> prefix (resolve (zipPath cfg)) (resolve (basePath cfg))"
  by (simp_all add: path_simps)

lemma entry_not_zip: "resolve (entry_path (basePath cfg) e) \<noteq> resolve (zipPath cfg)"
proof
  assume "resolve (entry_path (basePath cfg) e) = resolve (zipPath cfg)"
  then have "prefix (resolve (basePath cfg)) (resolve (zipPath cfg))"
    by (metis prefixI resolve_entry_path)
  with zip_base_apart(1) show False ..
qed

lemma zip_phase_keep:
  "v' (resolve (zipPath (configDir h))) = v (resolve (zipPath (configDir h))) \<Longrightarrow> grows v v' \<Longrightarrow>
   zip_phase h B v t \<Longrightarrow> zip_phase h B v' t"
  by (cases t) (auto simp: grows_def Let_def)

text \<open>One step of the click's chain before \<open>unzip\<close>: it hands on to the next
  stage and changes the store at most at the archive's path.\<close>

lemma phase_step:
  assumes "zip_phase h B (disk a) t0" and "\<forall>z. t0 \<noteq> Unzip z" and "pstep h a t0 = (a', new, es)"
  shows "\<exists>t0'. new = [t0'] \<and> zip_phase h B (disk a') t0' \<and> grows (disk a) (disk a')
           \<and> (\<forall>s. s \<noteq> resolve (zipPath (configDir h)) \<longrightarrow> disk a' s = disk a s)"
proof (cases t0)
  case CODExists
  with assms show ?thesis by (auto simp: exists_def domIff Let_def)
next
  case AwaitMeta
  with assms show ?thesis by (auto simp: serves_def Let_def split: sum.splits)
next
  case (AwaitAsset u)
  with assms show ?thesis by (auto simp: Let_def split: option.splits)
next
  case (AwaitWrite d)
  have "resolve (zipPath (configDir h)) \<noteq> []" by (simp add: path_simps)
  with assms AwaitWrite show ?thesis by (auto simp: writeBinary_def Let_def intro: grows_upd_new)
qed (use assms in simp_all)

lemma pstep_Unzip_cached:
  "disk a (resolve z) = Some (File B) \<Longrightarrow> parse h B = Some es \<Longrightarrow>
   pstep h a (Unzip z) = (a, map X (unzip_tasks (configDir h) es), [])"
  by (simp add: unzip_start_def readBinary_def)

lemma click_X_step:
  assumes "resume (pstep h) w w'" and "pending w = image_mset X M"
    and "best_effort_inv p b \<lparr>store = disk (store w), pending = M, rejected = rejected w\<rparr>"
  shows "click_inv h B p b w'"
proof -
  from resume_X_view [OF assms(1,2)] obtain M' where "pending w' = image_mset X M'"
    and "resume xstep \<lparr>store = disk (store w), pending = M, rejected = rejected w\<rparr>
           \<lparr>store = disk (store w'), pending = M', rejected = rejected w'\<rparr>" by blast
  with assms(3) best_effort_step show ?thesis unfolding click_inv_def by (metis (no_types))
qed

lemma click_unzip_step:
  assumes arch: "parse h B = Some (xs @ e # ys)" "\<not> directory e" "getData e = Some b"
    and p: "p = entry_path (basePath (configDir h)) e"
    and clear: "\<forall>t \<in> set (unzip_tasks (configDir h) (xs @ ys)). \<not> reaches (resolve p) t"
    and st: "pstep h (store w) (Unzip (zipPath (configDir h))) = (store w', new, es)"
    and pw: "pending w' = pending w - {#Unzip (zipPath (configDir h))#} + mset new"
    and zf: "disk (store w) (resolve (zipPath (configDir h))) = Some (File B)"
    and q: "disk (store w) (resolve p) = None" and par: "disk (store w) (butlast (resolve p)) = Some Folder"
    and rest: "\<forall>t \<in># pending w - {#Unzip (zipPath (configDir h))#}.
                 t \<in> {X (Ensure (resourcePath (configDir h))), X (EnsureMkdir (resourcePath (configDir h)))}"
  shows "click_inv h B p b w'"
proof -
  from st pstep_Unzip_cached [OF zf arch(1)] have s: "store w' = store w"
    and n: "new = map X (unzip_tasks (configDir h) (xs @ e # ys))" by simp_all
  from rest obtain M0 where M0: "pending w - {#Unzip (zipPath (configDir h))#} = image_mset X M0"
    and M0c: "\<forall>u \<in># M0. \<not> reaches (resolve p) u"
    using image_mset_X_ex [of "pending w - {#Unzip (zipPath (configDir h))#}" "\<lambda>u. \<not> reaches (resolve p) u"]
      base_task_clear [OF clear] by blast
  have ft: "file_task (resolve p) p b
      \<lparr>store = disk (store w), pending = M0 + mset (unzip_tasks (configDir h) (xs @ e # ys)),
       rejected = rejected w'\<rparr>"
    using file_task_add [OF file_task_start [OF arch(2,3) clear [unfolded p]] M0c [unfolded p]] p
    by simp
  have "pending w' = image_mset X (M0 + mset (unzip_tasks (configDir h) (xs @ e # ys)))"
    using pw M0 n by (simp add: mset_map)
  moreover have "best_effort_inv p b \<lparr>store = disk (store w'),
      pending = M0 + mset (unzip_tasks (configDir h) (xs @ e # ys)), rejected = rejected w'\<rparr>"
    using ft s q par by (simp add: best_effort_inv_def)
  ultimately show ?thesis unfolding click_inv_def Let_def by blast
qed

lemma click_chain_step:
  assumes arch: "parse h B = Some (xs @ e # ys)" "\<not> directory e" "getData e = Some b"
    and p: "p = entry_path (basePath (configDir h)) e"
    and clear: "\<forall>t \<in> set (unzip_tasks (configDir h) (xs @ ys)). \<not> reaches (resolve p) t"
    and r: "resume (pstep h) w w'"
    and q: "disk (store w) (resolve p) = None"
    and par: "disk (store w) (butlast (resolve p)) = Some Folder"
    and t0: "zip_phase h B (disk (store w)) t0" "t0 \<in># pending w"
    and rest: "\<forall>t \<in># pending w - {#t0#}.
                 t \<in> {X (Ensure (resourcePath (configDir h))), X (EnsureMkdir (resourcePath (configDir h)))}"
  shows "click_inv h B p b w'"
proof -
  let ?zq = "resolve (zipPath (configDir h))" and ?rp = "resourcePath (configDir h)"
  have qz: "resolve p \<noteq> ?zq" using entry_not_zip p by simp
  from r obtain t new es where t: "t \<in># pending w"
    and st: "pstep h (store w) t = (store w', new, es)"
    and pw: "pending w' = pending w - {#t#} + mset new"
    by (rule resume_store_cases)
  show ?thesis
  proof (cases "t = t0")
    case True
    show ?thesis
    proof (cases "\<exists>z. t0 = Unzip z")
      case True
      then obtain z where tz: "t0 = Unzip z" by blast
      have "zip_phase h B (disk (store w)) (Unzip z)" using t0(1) unfolding tz .
      then have "z = zipPath (configDir h) \<and> disk (store w) (resolve z) = Some (File B)"
        unfolding zip_phase.simps .
      then have zz0: "z = zipPath (configDir h)" and zd: "disk (store w) (resolve z) = Some (File B)"
        by blast+
      from tz have zz: "t0 = Unzip (zipPath (configDir h))" unfolding zz0 .
      from zd have zf: "disk (store w) (resolve (zipPath (configDir h))) = Some (File B)" unfolding zz0 .
      from \<open>t = t0\<close> zz st pw rest show ?thesis
        by (intro click_unzip_step [OF arch p clear _ _ zf q par]) simp_all
    next
      case False
      with True st t0(1) phase_step [of h B "store w" t0 "store w'" new es] obtain t0' where
        n: "new = [t0']" and z': "zip_phase h B (disk (store w')) t0'"
        and g: "grows (disk (store w)) (disk (store w'))"
        and o: "\<forall>s. s \<noteq> ?zq \<longrightarrow> disk (store w') s = disk (store w) s" by auto
      from o qz q have "disk (store w') (resolve p) = None" by simp
      moreover from g par have "disk (store w') (butlast (resolve p)) = Some Folder"
        by (simp add: grows_def)
      moreover have "t0' \<in># pending w'" "pending w' - {#t0'#} = pending w - {#t0#}"
        using pw n True by simp_all
      ultimately show ?thesis using z' rest unfolding click_inv_def Let_def by (intro disjI1) metis
    qed
  next
    case False
    from pick_other [OF t t0(2) False, of "mset new"] pw have t0': "t0 \<in># pending w'"
      and eq: "pending w' - {#t0#} = pending w - {#t0#} - {#t#} + mset new"
      and tr: "t \<in># pending w - {#t0#}" by simp_all
    from rest tr obtain u where tu: "t = X u" and ub: "u \<in> {Ensure ?rp, EnsureMkdir ?rp}" by auto
    obtain v' n es' where x: "xstep (disk (store w)) u = (v', n, es')"
      by (cases "xstep (disk (store w)) u") auto
    from st tu x have s: "store w' = (store w)\<lparr>disk := v'\<rparr>" and nX: "new = map X n"
      by (auto simp: Let_def)
    have nu: "\<not> reaches (resolve p) u" using base_task_clear [OF clear ub] .
    have nz: "\<not> reaches ?zq u" using ub zip_base_apart(2) by (auto simp: reaches_def resourcePath_basePath)
    have "v' (resolve p) = None" using xstep_clear [OF x nu prefix_order.refl] q by simp
    moreover have "v' (butlast (resolve p)) = Some Folder"
      using xstep_grows [OF x] par by (simp add: grows_def)
    moreover have "zip_phase h B v' t0"
      using zip_phase_keep [OF conjunct1 [OF xstep_clear [OF x nz prefix_order.refl]] xstep_grows [OF x] t0(1)] .
    moreover have "\<forall>t' \<in># pending w' - {#t0#}. t' \<in> {X (Ensure ?rp), X (EnsureMkdir ?rp)}"
      unfolding eq set_mset_union set_mset_mset nX set_map using rest base_task_step [OF ub x]
      by (blast dest: in_diffD)
    ultimately show ?thesis using s t0' unfolding click_inv_def Let_def
      by (intro disjI1) auto
  qed
qed

lemma click_step:
  assumes "parse h B = Some (xs @ e # ys)" "\<not> directory e" "getData e = Some b"
    and "p = entry_path (basePath (configDir h)) e"
    and "\<forall>t \<in> set (unzip_tasks (configDir h) (xs @ ys)). \<not> reaches (resolve p) t"
    and "resume (pstep h) w w'" and "click_inv h B p b w"
  shows "click_inv h B p b w'"
proof -
  from assms(7) consider (chain) t0 where
      "disk (store w) (resolve p) = None" "disk (store w) (butlast (resolve p)) = Some Folder"
      "zip_phase h B (disk (store w)) t0" "t0 \<in># pending w"
      "\<forall>t \<in># pending w - {#t0#}.
         t \<in> {X (Ensure (resourcePath (configDir h))), X (EnsureMkdir (resourcePath (configDir h)))}"
    | (unzipped) M where "pending w = image_mset X M"
      "best_effort_inv p b \<lparr>store = disk (store w), pending = M, rejected = rejected w\<rparr>"
    unfolding click_inv_def Let_def by blast
  then show ?thesis
  proof cases
    case chain
    from click_chain_step [OF assms(1-6) chain] show ?thesis .
  next
    case unzipped
    from click_X_step [OF assms(6) unzipped] show ?thesis .
  qed
qed

lemma click_final:
  "click_inv h B p b w \<Longrightarrow> pending w = {#} \<Longrightarrow> disk (store w) (resolve p) = Some (File b)"
  by (auto simp: click_inv_def best_effort_inv_def file_task_def)

section \<open>Properties of what a click installs\<close>

text \<open>C11: a click installs the sounds. When the archive \<open>B\<close> is cached, or
  is absent and the server hands it out (and its folder exists), and the ZIP
  reader decodes it, a file entry whose path is free, whose folder exists and
  below which no other entry works is stored with its payload at the end of
  every schedule of the click's tasks: the \<open>exists\<close> check, the download, the
  \<open>unzip\<close> and all the tasks it starts, whatever the order of their I/O and
  however the other writes fail.\<close>

theorem click_installs_sounds:
  assumes "disk a (resolve (zipPath (configDir h))) = Some (File B)
           \<or> (disk a (resolve (zipPath (configDir h))) = None
              \<and> disk a (butlast (resolve (zipPath (configDir h)))) = Some Folder \<and> serves h B)"
    and "parse h B = Some (xs @ e # ys)" and "\<not> directory e" and "getData e = Some b"
    and "disk a (resolve (entry_path (basePath (configDir h)) e)) = None"
    and "disk a (butlast (resolve (entry_path (basePath (configDir h)) e))) = Some Folder"
    and "\<forall>t \<in> set (unzip_tasks (configDir h) (xs @ ys)).
           \<not> reaches (resolve (entry_path (basePath (configDir h)) e)) t"
  shows "inevitable (pstep h)
           (\<lambda>w. pending w = {#} \<and> disk (store w) (resolve (entry_path (basePath (configDir h)) e)) = Some (File b))
           \<lparr>store = a, pending = mset (checkOrDownload_call (configDir h)), rejected = E\<rparr>"
proof (rule ranked_inevitable [OF pstep_ranked, of "click_inv h B (entry_path (basePath (configDir h)) e) b"])
  show "click_inv h B (entry_path (basePath (configDir h)) e) b w'"
    if "click_inv h B (entry_path (basePath (configDir h)) e) b w" "resume (pstep h) w w'" for w w'
    using click_step [OF assms(2-4) refl assms(7) that(2,1)] .
  show "pending w = {#} \<and> disk (store w) (resolve (entry_path (basePath (configDir h)) e)) = Some (File b)"
    if "click_inv h B (entry_path (basePath (configDir h)) e) b w" "pending w = {#}" for w
    using click_final [OF that] that(2) by simp
  have "zip_phase h B (disk a) CODExists" using assms(1) by (simp add: Let_def)
  then show "click_inv h B (entry_path (basePath (configDir h)) e) b
          \<lparr>store = a, pending = mset (checkOrDownload_call (configDir h)), rejected = E\<rparr>"
    using assms(5,6) unfolding click_inv_def Let_def checkOrDownload_call_def
    by (intro disjI1) (auto intro: exI [of _ CODExists])
qed

theorem click_installs_sounds_witness:
  "inevitable (pstep (demo_host\<lparr>parse := \<lambda>b. Some demo_best_entries\<rparr>))
     (\<lambda>w. pending w = {#} \<and> disk (store w) (demo_base @ [''new.wav'']) = Some (File [4]))
     \<lparr>store = demo_acq, pending = mset (checkOrDownload_call ''.obsidian''), rejected = []\<rparr>"
proof -
  have r: "resolve (entry_path (basePath ''.obsidian'') (hd demo_best_entries)) = demo_base @ [''new.wav'']"
    by (simp add: path_simps)
  have z: "resolve (zipPath ''.obsidian'') = demo_zip" by (simp add: path_simps)
  have sv: "serves (demo_host\<lparr>parse := \<lambda>b. Some demo_best_entries\<rparr>) [5, 6]"
    by (simp add: serves_def fetch_metadata_def find_asset_def asset_request_def metadata_request_def
        asset_name_def)
  have c: "\<forall>t \<in> set (unzip_tasks ''.obsidian'' ([] @ demo_race_entries)). \<not> reaches (demo_base @ [''new.wav'']) t"
    by (simp add: unzip_tasks_def Let_def reaches_def path_simps)
  show ?thesis
    using click_installs_sounds [of demo_acq "demo_host\<lparr>parse := \<lambda>b. Some demo_best_entries\<rparr>" "[5, 6]"
        "[]" "hd demo_best_entries" demo_race_entries "[4]" "[]"] r z sv c
    by simp
qed

end
