(* ===== verification/Sounds.thy ===== *)
theory Sounds
  imports Prelude
begin

text \<open>
  The Sound Channel Set of \<open>src/src/main.ts\<close> (interface \<open>Sounds\<close>): five named
  slots, each bound to a Howler handle. Handles are objects shared between the
  plugin and the audio backend, so they are modelled by identifiers into an
  explicit store \<open>backend\<close> that records what the plugin has done to each handle
  (the calls \<open>play\<close>, \<open>stop\<close>, \<open>unload\<close>, \<open>volume\<close> declared for \<open>Howl\<close> in
  \<open>src/typings/obsidian.d.ts\<close>). The scheme loader \<open>loadScheme\<close> of the scheme
  catalogue (\<open>schemeHelper.ts\<close>, not in the repository) is modelled from the
  specification: it creates five fresh loaded handles of one generation.
\<close>

type_synonym hid = nat

datatype channel = Key | Key2 | Enter | Space | Delete

record sounds =
  key :: hid
  key2 :: hid
  enter :: hid
  space :: hid
  delete :: hid

primrec sound_of :: "sounds \<Rightarrow> channel \<Rightarrow> hid" where
  "sound_of s Key = key s"
| "sound_of s Key2 = key2 s"
| "sound_of s Enter = enter s"
| "sound_of s Space = space s"
| "sound_of s Delete = delete s"

text \<open>The own properties of a \<open>Sounds\<close> object, in the order \<open>for ... in\<close> and
  \<open>Object.keys\<close> enumerate them.\<close>

definition all_channels :: "channel list" where
  "all_channels = [Key, Key2, Enter, Space, Delete]"

record howl =
  src :: string
  gen :: nat
  loaded :: bool
  vol :: rat
  plays :: nat
  stops :: nat

type_synonym backend = "hid \<rightharpoonup> howl"

definition howl_call :: "(howl \<Rightarrow> howl) \<Rightarrow> backend \<Rightarrow> hid \<Rightarrow> backend" where
  "howl_call f b h = (case b h of None \<Rightarrow> b | Some x \<Rightarrow> b(h \<mapsto> f x))"

definition howl_play :: "howl \<Rightarrow> howl" where
  "howl_play x = x\<lparr>plays := Suc (plays x)\<rparr>"

definition howl_stop :: "howl \<Rightarrow> howl" where
  "howl_stop x = x\<lparr>stops := Suc (stops x)\<rparr>"

definition howl_unload :: "howl \<Rightarrow> howl" where
  "howl_unload x = x\<lparr>loaded := False\<rparr>"

definition howl_volume :: "rat \<Rightarrow> howl \<Rightarrow> howl" where
  "howl_volume v x = x\<lparr>vol := v\<rparr>"

text \<open>\<open>for (const key in this.sounds) this.sounds[key].f()\<close>: the call on every
  handle of the set, in enumeration order.\<close>

definition sounds_apply :: "(howl \<Rightarrow> howl) \<Rightarrow> sounds \<Rightarrow> backend \<Rightarrow> backend" where
  "sounds_apply f s b = fold (\<lambda>c b. howl_call f b (sound_of s c)) all_channels b"

definition stopSounds :: "sounds \<Rightarrow> backend \<Rightarrow> backend" where
  "stopSounds s b = sounds_apply howl_stop s b"

definition unloadSounds :: "sounds \<Rightarrow> backend \<Rightarrow> backend" where
  "unloadSounds s b = sounds_apply howl_unload s b"

subsection \<open>Schemes and the scheme loader (interface of the catalogue)\<close>

record scheme =
  scheme_id :: string
  scheme_src :: "channel \<Rightarrow> string"

definition fresh_howl :: "scheme \<Rightarrow> nat \<Rightarrow> channel \<Rightarrow> howl" where
  "fresh_howl sch g c =
     \<lparr>src = scheme_src sch c, gen = g, loaded = True, vol = 1, plays = 0, stops = 0\<rparr>"

definition loadScheme :: "scheme \<Rightarrow> backend \<Rightarrow> nat \<Rightarrow> sounds \<times> backend \<times> nat" where
  "loadScheme sch b n =
     (let s = \<lparr>key = n, key2 = n + 1, enter = n + 2, space = n + 3, delete = n + 4\<rparr>
      in (s, fold (\<lambda>c b. b(sound_of s c \<mapsto> fresh_howl sch n c)) all_channels b, n + 5))"

definition defaultScheme :: scheme where
  "defaultScheme =
     \<lparr>scheme_id = ''default'',
      scheme_src = (\<lambda>c. case c of
          Key \<Rightarrow> ''key.wav'' | Key2 \<Rightarrow> ''key2.wav'' | Enter \<Rightarrow> ''enter.wav''
        | Space \<Rightarrow> ''space.wav'' | Delete \<Rightarrow> ''delete.wav'')\<rparr>"

text \<open>Every handle of a store has property \<open>P\<close>.\<close>

definition backend_all :: "(howl \<Rightarrow> bool) \<Rightarrow> backend \<Rightarrow> bool" where
  "backend_all P b \<longleftrightarrow> (\<forall>h x. b h = Some x \<longrightarrow> P x)"

section \<open>Lemmas\<close>

lemma all_channels_complete [simp]: "c \<in> set all_channels"
  by (cases c) (simp_all add: all_channels_def)

lemma distinct_all_channels: "distinct all_channels"
  by (simp add: all_channels_def)

lemma dom_howl_call [simp]: "dom (howl_call f b h) = dom b"
  by (auto simp: howl_call_def split: option.splits)

lemma howl_call_other [simp]: "h' \<noteq> h \<Longrightarrow> howl_call f b h h' = b h'"
  by (simp add: howl_call_def split: option.splits)

lemma howl_call_same [simp]: "howl_call f b h h = map_option f (b h)"
  by (simp add: howl_call_def split: option.splits)

lemma fold_howl_call_outside:
  "h \<notin> set (map (sound_of s) cs) \<Longrightarrow>
   fold (\<lambda>c b. howl_call f b (sound_of s c)) cs b h = b h"
  by (induction cs arbitrary: b) auto

lemma fold_howl_call_dom:
  "dom (fold (\<lambda>c b. howl_call f b (sound_of s c)) cs b) = dom b"
  by (induction cs arbitrary: b) auto

lemma dom_sounds_apply [simp]: "dom (sounds_apply f s b) = dom b"
  by (simp add: sounds_apply_def fold_howl_call_dom)

lemma sounds_apply_outside:
  "(\<forall>c. sound_of s c \<noteq> h) \<Longrightarrow> sounds_apply f s b h = b h"
  by (auto simp: sounds_apply_def intro!: fold_howl_call_outside)

text \<open>A call on every handle of a set whose handles are distinct reaches each of
  them exactly once.\<close>

lemma fold_howl_call_inside:
  assumes "distinct (map (sound_of s) cs)" and "c \<in> set cs"
  shows "fold (\<lambda>c b. howl_call f b (sound_of s c)) cs b (sound_of s c) =
         map_option f (b (sound_of s c))"
  using assms
proof (induction cs arbitrary: b)
  case (Cons d cs)
  show ?case
  proof (cases "d = c")
    case True
    with Cons.prems have "sound_of s c \<notin> set (map (sound_of s) cs)" by auto
    with True show ?thesis by (simp add: fold_howl_call_outside)
  next
    case False
    with Cons.prems have "c \<in> set cs" "distinct (map (sound_of s) cs)"
      and "sound_of s d \<noteq> sound_of s c" by auto
    with Cons.IH show ?thesis by simp
  qed
qed simp

lemma sounds_apply_inside:
  "inj (sound_of s) \<Longrightarrow> sounds_apply f s b (sound_of s c) = map_option f (b (sound_of s c))"
  unfolding sounds_apply_def
  by (rule fold_howl_call_inside)
     (simp_all add: distinct_map distinct_all_channels inj_on_subset[of _ UNIV])

lemma loadScheme_sound_of:
  "loadScheme sch b n = (s, b', n') \<Longrightarrow> sound_of s c = n + (case c of
     Key \<Rightarrow> 0 | Key2 \<Rightarrow> 1 | Enter \<Rightarrow> 2 | Space \<Rightarrow> 3 | Delete \<Rightarrow> 4)"
  by (cases c) (auto simp: loadScheme_def Let_def)

lemma loadScheme_inj: "loadScheme sch b n = (s, b', n') \<Longrightarrow> inj (sound_of s)"
  by (auto simp: inj_def loadScheme_sound_of split: channel.splits)

lemma loadScheme_next: "loadScheme sch b n = (s, b', n') \<Longrightarrow> n' = n + 5"
  by (simp add: loadScheme_def Let_def)

lemma fold_fresh_old:
  "h \<notin> set (map (sound_of s) cs) \<Longrightarrow>
   fold (\<lambda>c b. b(sound_of s c \<mapsto> g c)) cs b h = b h"
  by (induction cs arbitrary: b) auto

lemma fold_fresh_new:
  "distinct (map (sound_of s) cs) \<Longrightarrow> c \<in> set cs \<Longrightarrow>
   fold (\<lambda>c b. b(sound_of s c \<mapsto> g c)) cs b (sound_of s c) = Some (g c)"
proof (induction cs arbitrary: b)
  case (Cons d cs)
  show ?case
  proof (cases "c \<in> set cs")
    case True
    with Cons show ?thesis by simp
  next
    case False
    with Cons.prems have cd: "c = d" and nd: "sound_of s d \<notin> set (map (sound_of s) cs)"
      by auto
    from nd have "fold (\<lambda>c b. b(sound_of s c \<mapsto> g c)) cs (b(sound_of s d \<mapsto> g d)) (sound_of s d)
        = (b(sound_of s d \<mapsto> g d)) (sound_of s d)"
      by (rule fold_fresh_old)
    with cd show ?thesis by (simp del: fun_upd_apply) simp
  qed
qed simp

lemma loadScheme_new:
  "loadScheme sch b n = (s, b', n') \<Longrightarrow> b' (sound_of s c) = Some (fresh_howl sch n c)"
proof -
  assume ld: "loadScheme sch b n = (s, b', n')"
  then have inj: "inj (sound_of s)" by (rule loadScheme_inj)
  from ld have b': "b' = fold (\<lambda>c b. b(sound_of s c \<mapsto> fresh_howl sch n c)) all_channels b"
    by (auto simp: loadScheme_def Let_def)
  have "distinct (map (sound_of s) all_channels)"
    using inj by (simp add: distinct_map distinct_all_channels inj_on_subset[of _ UNIV])
  then show ?thesis unfolding b' by (rule fold_fresh_new) simp
qed

lemma loadScheme_old:
  "loadScheme sch b n = (s, b', n') \<Longrightarrow> h < n \<Longrightarrow> b' h = b h"
proof -
  assume ld: "loadScheme sch b n = (s, b', n')" and h: "h < n"
  from ld have b': "b' = fold (\<lambda>c b. b(sound_of s c \<mapsto> fresh_howl sch n c)) all_channels b"
    by (auto simp: loadScheme_def Let_def)
  from ld h have "h \<notin> set (map (sound_of s) all_channels)"
    by (auto simp: loadScheme_sound_of split: channel.splits)
  then show ?thesis unfolding b' by (rule fold_fresh_old)
qed

lemma loadScheme_dom:
  "loadScheme sch b n = (s, b', n') \<Longrightarrow> dom b' = dom b \<union> range (sound_of s)"
proof -
  assume ld: "loadScheme sch b n = (s, b', n')"
  from ld have b': "b' = fold (\<lambda>c b. b(sound_of s c \<mapsto> fresh_howl sch n c)) all_channels b"
    by (auto simp: loadScheme_def Let_def)
  have "dom (fold (\<lambda>c b. b(sound_of s c \<mapsto> g c)) cs b) = dom b \<union> sound_of s ` set cs"
    for cs g and b :: backend
    by (induction cs arbitrary: b) auto
  moreover have "set all_channels = UNIV" by auto
  ultimately show ?thesis unfolding b' by simp
qed

text \<open>Calls that keep a property of each handle keep it for the whole store, and
  loading a scheme keeps it when its fresh handles have it.\<close>

lemma howl_call_all:
  "(\<And>x. P x \<Longrightarrow> P (f x)) \<Longrightarrow> backend_all P b \<Longrightarrow> backend_all P (howl_call f b h)"
  by (auto simp: backend_all_def howl_call_def split: option.splits if_splits)

lemma sounds_apply_all:
  assumes "\<And>x. P x \<Longrightarrow> P (f x)" and "backend_all P b"
  shows "backend_all P (sounds_apply f s b)"
proof -
  have "backend_all P (fold (\<lambda>c b. howl_call f b (sound_of s c)) cs b)" if "backend_all P b" for cs b
    using that by (induction cs arbitrary: b) (simp_all add: howl_call_all assms(1))
  then show ?thesis using assms(2) by (simp add: sounds_apply_def)
qed

lemma backend_all_upd: "backend_all P b \<Longrightarrow> P y \<Longrightarrow> backend_all P (b(k \<mapsto> y))"
  by (simp add: backend_all_def)

lemma loadScheme_all:
  assumes "loadScheme sch b n = (s, b', n')" and "backend_all P b" and "\<And>c. P (fresh_howl sch n c)"
  shows "backend_all P b'"
proof -
  have "backend_all P (fold (\<lambda>c b. b(sound_of s' c \<mapsto> fresh_howl sch n c)) cs b)"
    if "backend_all P b" for cs b and s' :: sounds
    using that by (induction cs arbitrary: b) (simp_all add: backend_all_upd assms(3))
  then show ?thesis using assms(1,2) by (auto simp: loadScheme_def Let_def)
qed

end
