(* ===== verification/Plugin.thy ===== *)
theory Plugin
  imports Sounds
begin

text \<open>
  The plugin class \<open>ClickClackPlugin\<close> of \<open>src/src/main.ts\<close>: its settings, its
  state (settings, the active Sound Channel Set, the handles it has created), the
  constructor and \<open>onload\<close>, the keyboard handler registered on \<open>keydown\<close>
  (Channel Dispatch), the two commands, \<open>toggleSound\<close>, \<open>refreshSounds\<close> and
  \<open>onunload\<close>. The key-code table \<open>DEFAULT_MAP\<close> and the default settings live
  in files that are not part of the repository and are modelled from the
  specification.
\<close>

section \<open>Settings\<close>

record settings =
  enabled :: bool
  volumn :: "int option"
  activeScheme :: scheme

definition DEFAULT_SETTINGS_V1 :: settings where
  "DEFAULT_SETTINGS_V1 = \<lparr>enabled = True, volumn = None, activeScheme = defaultScheme\<rparr>"

text \<open>What \<open>loadData()\<close> returns: the persisted object, in which each field may be
  missing, or nothing at all.\<close>

record stored_settings =
  s_enabled :: "bool option"
  s_volumn :: "int option"
  s_activeScheme :: "scheme option"

definition assign_field :: "'a \<Rightarrow> 'a option \<Rightarrow> 'a" where
  "assign_field d v = (case v of None \<Rightarrow> d | Some x \<Rightarrow> x)"

text \<open>\<open>Object.assign({}, DEFAULT_SETTINGS_V1, await this.loadData())\<close>.\<close>

definition loadSettings :: "stored_settings option \<Rightarrow> settings" where
  "loadSettings d =
     (case d of None \<Rightarrow> DEFAULT_SETTINGS_V1
      | Some st \<Rightarrow>
          \<lparr>enabled = assign_field (enabled DEFAULT_SETTINGS_V1) (s_enabled st),
           volumn = (case s_volumn st of None \<Rightarrow> volumn DEFAULT_SETTINGS_V1 | Some v \<Rightarrow> Some v),
           activeScheme = assign_field (activeScheme DEFAULT_SETTINGS_V1) (s_activeScheme st)\<rparr>)"

section \<open>Plugin state\<close>

record plugin =
  settings :: settings
  sounds :: sounds
  backend :: backend
  next_hid :: nat
  saved :: "settings option"

definition saveSettings :: "plugin \<Rightarrow> plugin" where
  "saveSettings p = p\<lparr>saved := Some (settings p)\<rparr>"

text \<open>The object \<open>saveData(this.settings)\<close> persists, as \<open>loadData()\<close> reads it
  back: every field present, except a volume that was never set.\<close>

definition stored_of :: "settings \<Rightarrow> stored_settings" where
  "stored_of s = \<lparr>s_enabled = Some (enabled s), s_volumn = volumn s, s_activeScheme = Some (activeScheme s)\<rparr>"

text \<open>The constructor: \<open>this.sounds = defaultSounds\<close>, the handles of the default
  scheme created when the module is loaded. Settings are read in \<open>onload\<close>.\<close>

definition plugin_new :: plugin where
  "plugin_new =
     (let (s, b, n) = loadScheme defaultScheme Map.empty 0
      in \<lparr>settings = DEFAULT_SETTINGS_V1, sounds = s, backend = b, next_hid = n, saved = None\<rparr>)"

definition install_scheme :: "scheme \<Rightarrow> plugin \<Rightarrow> plugin" where
  "install_scheme sch p =
     (let (s, b, n) = loadScheme sch (backend p) (next_hid p)
      in p\<lparr>sounds := s, backend := b, next_hid := n\<rparr>)"

definition onload :: "stored_settings option \<Rightarrow> plugin \<Rightarrow> plugin" where
  "onload d p =
     (let p1 = p\<lparr>settings := loadSettings d\<rparr>
      in install_scheme (activeScheme (settings p1)) p1)"

section \<open>Channel Dispatch\<close>

record key_event =
  code :: string
  ctrlKey :: bool
  metaKey :: bool
  altKey :: bool

definition letter_codes :: "string list" where
  "letter_codes = map (\<lambda>c. ''Key'' @ [c]) ''ABCDEFGHIJKLMNOPQRSTUVWXYZ''"

definition digit_codes :: "string list" where
  "digit_codes = map (\<lambda>c. ''Digit'' @ [c]) ''0123456789''"

definition punctuation_codes :: "string list" where
  "punctuation_codes =
     [''Backquote'', ''Minus'', ''Equal'', ''BracketLeft'', ''BracketRight'', ''Backslash'',
      ''Semicolon'', ''Quote'', ''Comma'', ''Period'', ''Slash'', ''Tab'']"

definition key_sound_table :: "(string \<times> channel) list" where
  "key_sound_table =
     map (\<lambda>k. (k, Key)) (letter_codes @ digit_codes)
     @ map (\<lambda>k. (k, Key2)) punctuation_codes
     @ [(''Space'', Space), (''Enter'', Enter), (''NumpadEnter'', Enter),
        (''Backspace'', Delete), (''Delete'', Delete)]"

definition DEFAULT_MAP :: "string \<Rightarrow> channel option" where
  "DEFAULT_MAP k = map_of key_sound_table k"

text \<open>The guards of the \<open>keydown\<close> listener, in the source's order, and the
  handle it plays. \<open>this.sounds[soundKey]\<close> is a \<open>Howl\<close> object and always
  truthy, so the second conjunct of the source's test never fails.\<close>

definition keydown_target :: "plugin \<Rightarrow> key_event \<Rightarrow> hid option" where
  "keydown_target p evt =
     (if \<not> enabled (settings p) then None
      else if ctrlKey evt then None
      else if metaKey evt then None
      else if altKey evt \<and> \<not> ctrlKey evt \<and> \<not> metaKey evt then None
      else (case DEFAULT_MAP (code evt) of
              None \<Rightarrow> None
            | Some soundKey \<Rightarrow> Some (sound_of (sounds p) soundKey)))"

definition keydown :: "plugin \<Rightarrow> key_event \<Rightarrow> plugin" where
  "keydown p evt =
     (case keydown_target p evt of
        None \<Rightarrow> p
      | Some h \<Rightarrow> p\<lparr>backend := howl_call howl_play (backend p) h\<rparr>)"

section \<open>Commands and sound management\<close>

definition toggleSound :: "bool \<Rightarrow> plugin \<Rightarrow> plugin" where
  "toggleSound b p = saveSettings (p\<lparr>settings := (settings p)\<lparr>enabled := b\<rparr>\<rparr>)"

text \<open>\<open>checkCallback(checking)\<close> of the two commands: with \<open>checking\<close> it only
  answers whether the command is available; otherwise it runs it.\<close>

definition enable_command :: "bool \<Rightarrow> plugin \<Rightarrow> bool \<times> plugin" where
  "enable_command checking p =
     (if checking then (\<not> enabled (settings p), p) else (True, toggleSound True p))"

definition disable_command :: "bool \<Rightarrow> plugin \<Rightarrow> bool \<times> plugin" where
  "disable_command checking p =
     (if checking then (enabled (settings p), p) else (True, toggleSound False p))"

definition refreshSounds :: "plugin \<Rightarrow> plugin" where
  "refreshSounds p = install_scheme (activeScheme (settings p)) p"

definition onunload :: "plugin \<Rightarrow> plugin" where
  "onunload p = p\<lparr>backend := unloadSounds (sounds p) (backend p)\<rparr>"

section \<open>Lemmas\<close>

lemma install_scheme_fields:
  assumes "loadScheme sch (backend p) (next_hid p) = (s, b, n)"
  shows "install_scheme sch p = p\<lparr>sounds := s, backend := b, next_hid := n\<rparr>"
  using assms by (simp add: install_scheme_def)

lemma keydown_frame:
  "settings (keydown p e) = settings p \<and> sounds (keydown p e) = sounds p
   \<and> next_hid (keydown p e) = next_hid p \<and> saved (keydown p e) = saved p
   \<and> dom (backend (keydown p e)) = dom (backend p)"
  by (simp add: keydown_def split: option.splits)

lemma keydown_backend:
  "backend (keydown p e) =
     (case keydown_target p e of None \<Rightarrow> backend p | Some h \<Rightarrow> howl_call howl_play (backend p) h)"
  by (simp add: keydown_def split: option.splits)

lemma DEFAULT_MAP_Key_letters: "c \<in> set ''ABCDEFGHIJKLMNOPQRSTUVWXYZ'' \<Longrightarrow>
  DEFAULT_MAP (''Key'' @ [c]) = Some Key"
  by (auto simp: DEFAULT_MAP_def key_sound_table_def letter_codes_def)

section \<open>Properties of Channel Dispatch\<close>

text \<open>C1: the keyboard handler is equivalent to a single test: it plays the
  channel that the key code maps to exactly when sound is enabled and none of
  control, meta and alt is held. The source's alt guard
  \<open>evt.altKey && !evt.ctrlKey && !evt.metaKey\<close> is thus the same as
  \<open>evt.altKey\<close> after the two guards before it.\<close>

theorem keydown_target_eq:
  "keydown_target p e =
     (if enabled (settings p) \<and> \<not> ctrlKey e \<and> \<not> metaKey e \<and> \<not> altKey e
      then map_option (sound_of (sounds p)) (DEFAULT_MAP (code e)) else None)"
  by (simp add: keydown_target_def split: option.splits)

text \<open>C2: when sound is disabled, a key press changes nothing, whatever the key
  and the modifiers.\<close>

theorem keydown_disabled:
  "\<not> enabled (settings p) \<Longrightarrow> keydown p e = p"
  by (simp add: keydown_def keydown_target_def)

theorem keydown_disabled_witness:
  "\<not> enabled (settings (plugin_new\<lparr>settings := (settings plugin_new)\<lparr>enabled := False\<rparr>\<rparr>))
   \<and> keydown (plugin_new\<lparr>settings := (settings plugin_new)\<lparr>enabled := False\<rparr>\<rparr>)
       \<lparr>code = ''KeyA'', ctrlKey = False, metaKey = False, altKey = False\<rparr>
     = plugin_new\<lparr>settings := (settings plugin_new)\<lparr>enabled := False\<rparr>\<rparr>"
  using keydown_disabled [of "plugin_new\<lparr>settings := (settings plugin_new)\<lparr>enabled := False\<rparr>\<rparr>"]
  by simp

text \<open>C3: a key press with control, meta or alt held changes nothing (the
  shortcuts of the operating system and the editor are reserved).\<close>

theorem keydown_modifier:
  "ctrlKey e \<or> metaKey e \<or> altKey e \<Longrightarrow> keydown p e = p"
  by (auto simp: keydown_def keydown_target_def)

theorem keydown_modifier_witness:
  "(ctrlKey \<lparr>code = ''KeyA'', ctrlKey = True, metaKey = False, altKey = False\<rparr>
    \<or> metaKey \<lparr>code = ''KeyA'', ctrlKey = True, metaKey = False, altKey = False\<rparr>
    \<or> altKey \<lparr>code = ''KeyA'', ctrlKey = True, metaKey = False, altKey = False\<rparr>)
   \<and> keydown plugin_new \<lparr>code = ''KeyA'', ctrlKey = True, metaKey = False, altKey = False\<rparr>
     = plugin_new"
  using keydown_modifier [of "\<lparr>code = ''KeyA'', ctrlKey = True, metaKey = False, altKey = False\<rparr>"
      plugin_new]
  by simp

text \<open>C4: a plain key press with sound enabled plays exactly one handle exactly
  once: the handle of the channel its key code maps to gets one more \<open>play\<close>
  call, and no other handle of the store changes.\<close>

theorem keydown_plays_once:
  assumes "enabled (settings p)" and "\<not> ctrlKey e" and "\<not> metaKey e" and "\<not> altKey e"
    and "DEFAULT_MAP (code e) = Some ch"
    and "backend p (sound_of (sounds p) ch) = Some x"
  shows "backend (keydown p e) =
           (backend p)(sound_of (sounds p) ch \<mapsto> x\<lparr>plays := Suc (plays x)\<rparr>)"
  using assms by (simp add: keydown_def keydown_target_def howl_call_def howl_play_def)

theorem keydown_plays_once_witness:
  "backend (keydown plugin_new \<lparr>code = ''KeyA'', ctrlKey = False, metaKey = False, altKey = False\<rparr>)
   = (backend plugin_new)(0 \<mapsto> (fresh_howl defaultScheme 0 Key)\<lparr>plays := 1\<rparr>)"
proof -
  have ld: "loadScheme defaultScheme Map.empty 0 = (sounds plugin_new, backend plugin_new, 5)"
    by (simp add: plugin_new_def loadScheme_def Let_def)
  have h: "backend plugin_new (sound_of (sounds plugin_new) Key) = Some (fresh_howl defaultScheme 0 Key)"
    by (rule loadScheme_new [OF ld])
  have k: "sound_of (sounds plugin_new) Key = 0"
    using loadScheme_sound_of [OF ld, of Key] by simp
  have "enabled (settings plugin_new)"
    by (simp add: plugin_new_def loadScheme_def Let_def DEFAULT_SETTINGS_V1_def)
  moreover have "DEFAULT_MAP ''KeyA'' = Some Key"
    using DEFAULT_MAP_Key_letters [of "CHR ''A''"] by simp
  ultimately show ?thesis
    using keydown_plays_once [of plugin_new "\<lparr>code = ''KeyA'', ctrlKey = False, metaKey = False, altKey = False\<rparr>" Key,
        OF _ _ _ _ _ h] k
    by (simp add: fresh_howl_def)
qed

text \<open>C22: saved settings survive a reload. When the plugin has persisted its
  settings, loading the plugin again from the persisted object restores exactly
  those settings: \<open>Object.assign\<close> lets every stored field override the
  default.\<close>

theorem reload_restores_settings:
  "saved p = Some s \<Longrightarrow> settings (onload (map_option stored_of (saved p)) q) = s"
proof -
  assume sv: "saved p = Some s"
  obtain s' b n where ld: "loadScheme (activeScheme s) (backend q) (next_hid q) = (s', b, n)"
    by (cases "loadScheme (activeScheme s) (backend q) (next_hid q)") auto
  have l: "loadSettings (Some (stored_of s)) = s"
    by (cases s) (simp add: loadSettings_def stored_of_def assign_field_def DEFAULT_SETTINGS_V1_def
                   split: option.splits)
  show ?thesis
    using sv l install_scheme_fields [of "activeScheme s" "q\<lparr>settings := s\<rparr>"] ld
    by (simp add: onload_def)
qed

theorem reload_restores_settings_witness:
  "saved (toggleSound False plugin_new) = Some (DEFAULT_SETTINGS_V1\<lparr>enabled := False\<rparr>)
   \<and> enabled (settings (onload (map_option stored_of (saved (toggleSound False plugin_new))) plugin_new))
       = False"
proof -
  have sv: "saved (toggleSound False plugin_new) = Some (DEFAULT_SETTINGS_V1\<lparr>enabled := False\<rparr>)"
    by (simp add: toggleSound_def saveSettings_def plugin_new_def loadScheme_def Let_def)
  show ?thesis using reload_restores_settings [OF sv] sv by simp
qed

text \<open>C23: unloading the plugin unloads the active set. \<open>onunload\<close> marks
  every handle of the current Sound Channel Set unloaded and touches no other
  handle of the store.\<close>

theorem onunload_unloads_active:
  assumes "inj (sound_of (sounds p))"
  shows "(\<forall>c. backend (onunload p) (sound_of (sounds p) c) =
              map_option howl_unload (backend p (sound_of (sounds p) c)))
         \<and> (\<forall>h. h \<notin> range (sound_of (sounds p)) \<longrightarrow> backend (onunload p) h = backend p h)"
proof -
  have "backend (onunload p) h = backend p h" if "h \<notin> range (sound_of (sounds p))" for h
  proof -
    from that have "\<forall>c. sound_of (sounds p) c \<noteq> h" by blast
    then show ?thesis by (simp add: onunload_def unloadSounds_def sounds_apply_outside)
  qed
  then show ?thesis
    using sounds_apply_inside [OF assms] by (simp add: onunload_def unloadSounds_def)
qed

theorem onunload_unloads_active_witness:
  "inj (sound_of (sounds plugin_new))
   \<and> backend (onunload plugin_new) 0 = Some ((fresh_howl defaultScheme 0 Key)\<lparr>loaded := False\<rparr>)"
proof -
  have ld: "loadScheme defaultScheme Map.empty 0 = (sounds plugin_new, backend plugin_new, 5)"
    by (simp add: plugin_new_def loadScheme_def Let_def)
  have i: "inj (sound_of (sounds plugin_new))" by (rule loadScheme_inj [OF ld])
  have k: "sound_of (sounds plugin_new) Key = 0"
    using loadScheme_sound_of [OF ld, of Key] by simp
  have "backend (onunload plugin_new) (sound_of (sounds plugin_new) Key) =
          map_option howl_unload (backend plugin_new (sound_of (sounds plugin_new) Key))"
    using onunload_unloads_active [OF i] by blast
  with loadScheme_new [OF ld, of Key] k i show ?thesis by (simp add: howl_unload_def)
qed

text \<open>C24: the two commands are complementary. Exactly one of them is offered
  at any time (the enable command while sound is off, the disable command while
  it is on); asking changes nothing; running either sets and persists the flag,
  after which only the other one is offered.\<close>

theorem commands_complementary:
  "fst (enable_command True p) = (\<not> fst (disable_command True p))
   \<and> snd (enable_command True p) = p \<and> snd (disable_command True p) = p
   \<and> fst (disable_command True (snd (enable_command False p)))
   \<and> \<not> fst (enable_command True (snd (enable_command False p)))
   \<and> fst (enable_command True (snd (disable_command False p)))
   \<and> \<not> fst (disable_command True (snd (disable_command False p)))
   \<and> saved (snd (enable_command False p)) = Some (settings (snd (enable_command False p)))
   \<and> saved (snd (disable_command False p)) = Some (settings (snd (disable_command False p)))"
  by (simp add: enable_command_def disable_command_def toggleSound_def saveSettings_def)

end
