(* ===== verification/Bridge.thy ===== *)
theory Bridge
  imports Plugin
begin

text \<open>
  The Scheme Activation Bridge and the settings handlers of
  \<open>src/src/SettingTab.ts\<close> (the volume slider, the scheme dropdown, the enable
  toggle), and the plugin as a state machine: every event the host can deliver
  (a key press, a command, a settings change, a refresh, unloading) is one
  constructor of \<open>ui_event\<close>, \<open>plugin_step\<close> runs its handler, and
  \<open>reachable\<close> holds of every state that a run from \<open>onload\<close> can produce.
  The invariant \<open>coherent\<close> says that the active set consists of five distinct,
  live handles of a single generation; every handler preserves it. The
  handlers' \<open>await saveSettings()\<close> and \<open>await loadScheme(...)\<close> are taken as
  atomic: the whole set is replaced by one assignment, so no event can observe a
  partly replaced set.
\<close>

type_synonym catalogue = "string \<rightharpoonup> scheme"

section \<open>Settings handlers\<close>

text \<open>The slider's \<open>onChange(value)\<close>: store the value, set the volume of every
  handle of the current set to \<open>value / 100\<close>, persist.\<close>

definition volume_changed :: "int \<Rightarrow> plugin \<Rightarrow> plugin" where
  "volume_changed value p =
     (let p1 = p\<lparr>settings := (settings p)\<lparr>volumn := Some value\<rparr>\<rparr>;
          p2 = p1\<lparr>backend := sounds_apply (howl_volume (of_int value / 100)) (sounds p1) (backend p1)\<rparr>
      in saveSettings p2)"

text \<open>The dropdown's \<open>onChange(value)\<close>: the scheme of that id from the
  catalogue, or \<open>defaultScheme\<close> when there is none; it becomes the active
  scheme, its handles replace the current set, and the settings are persisted.\<close>

definition scheme_changed :: "catalogue \<Rightarrow> string \<Rightarrow> plugin \<Rightarrow> plugin" where
  "scheme_changed cat value p =
     (let scheme = (case cat value of None \<Rightarrow> defaultScheme | Some s \<Rightarrow> s);
          p1 = p\<lparr>settings := (settings p)\<lparr>activeScheme := scheme\<rparr>\<rparr>
      in saveSettings (install_scheme scheme p1))"

definition enabled_changed :: "bool \<Rightarrow> plugin \<Rightarrow> plugin" where
  "enabled_changed value p = saveSettings (p\<lparr>settings := (settings p)\<lparr>enabled := value\<rparr>\<rparr>)"

section \<open>The plugin as a state machine\<close>

datatype ui_event =
    KeyDown key_event
  | EnableCommand bool
  | DisableCommand bool
  | ToggleChanged bool
  | SliderChanged int
  | DropdownChanged string
  | Refresh
  | Unload

fun plugin_step :: "catalogue \<Rightarrow> plugin \<Rightarrow> ui_event \<Rightarrow> plugin" where
  "plugin_step cat p (KeyDown e) = keydown p e"
| "plugin_step cat p (EnableCommand checking) = snd (enable_command checking p)"
| "plugin_step cat p (DisableCommand checking) = snd (disable_command checking p)"
| "plugin_step cat p (ToggleChanged v) = enabled_changed v p"
| "plugin_step cat p (SliderChanged v) = volume_changed v p"
| "plugin_step cat p (DropdownChanged v) = scheme_changed cat v p"
| "plugin_step cat p Refresh = refreshSounds p"
| "plugin_step cat p Unload = onunload p"

fun plugin_run :: "catalogue \<Rightarrow> plugin \<Rightarrow> ui_event list \<Rightarrow> plugin" where
  "plugin_run cat p [] = p"
| "plugin_run cat p (e # es) = plugin_run cat (plugin_step cat p e) es"

inductive reachable :: "catalogue \<Rightarrow> plugin \<Rightarrow> bool" for cat where
  start: "reachable cat (onload d plugin_new)"
| step: "reachable cat p \<Longrightarrow> reachable cat (plugin_step cat p e)"

section \<open>The invariant\<close>

definition one_generation :: "plugin \<Rightarrow> bool" where
  "one_generation p \<longleftrightarrow>
     (\<forall>c c' x y. backend p (sound_of (sounds p) c) = Some x \<longrightarrow>
        backend p (sound_of (sounds p) c') = Some y \<longrightarrow> gen x = gen y)"

definition coherent :: "plugin \<Rightarrow> bool" where
  "coherent p \<longleftrightarrow>
     inj (sound_of (sounds p))
     \<and> (\<forall>c. sound_of (sounds p) c \<in> dom (backend p))
     \<and> (\<forall>h \<in> dom (backend p). h < next_hid p)
     \<and> one_generation p"

section \<open>The volume slider\<close>

text \<open>\<open>setLimits(0.0, 100, 1.0)\<close>: the values the slider delivers, and
  \<open>setValue(this.plugin.settings.volumn ?? 100)\<close>: the value it shows.\<close>

definition slider_ok :: "ui_event \<Rightarrow> bool" where
  "slider_ok e \<longleftrightarrow> (case e of SliderChanged v \<Rightarrow> 0 \<le> v \<and> v \<le> 100 | _ \<Rightarrow> True)"

definition slider_value :: "plugin \<Rightarrow> int" where
  "slider_value p = (case volumn (settings p) of None \<Rightarrow> 100 | Some v \<Rightarrow> v)"

text \<open>A playback level howler accepts: between silent and full.\<close>

definition vol_ok :: "howl \<Rightarrow> bool" where
  "vol_ok x \<longleftrightarrow> 0 \<le> vol x \<and> vol x \<le> 1"

section \<open>Lemmas\<close>

named_theorems gen_keep "handle operations that keep the generation of a handle"

lemma gen_keep_ops [gen_keep]:
  "gen (howl_play x) = gen x" "gen (howl_stop x) = gen x"
  "gen (howl_unload x) = gen x" "gen (howl_volume v x) = gen x"
  by (simp_all add: howl_play_def howl_stop_def howl_unload_def howl_volume_def)

lemma fold_howl_call_gen:
  "(\<And>x. gen (f x) = gen x) \<Longrightarrow>
   map_option gen (fold (\<lambda>c b. howl_call f b (sound_of s c)) cs b h) = map_option gen (b h)"
proof (induction cs arbitrary: b)
  case (Cons d cs)
  then show ?case
    by (cases "h = sound_of s d") (auto simp: option.map_comp comp_def)
qed simp

lemma sounds_apply_gen:
  "(\<And>x. gen (f x) = gen x) \<Longrightarrow> map_option gen (sounds_apply f s b h) = map_option gen (b h)"
  unfolding sounds_apply_def by (rule fold_howl_call_gen)

lemma howl_call_gen:
  "(\<And>x. gen (f x) = gen x) \<Longrightarrow> map_option gen (howl_call f b h' h) = map_option gen (b h)"
  by (cases "h = h'") (auto simp: option.map_comp comp_def)

text \<open>The invariant only depends on the set, the domain of the store, the
  counter and the generations of the handles, so an operation that keeps all of
  these keeps it.\<close>

lemma coherent_backend_gen:
  assumes "coherent p" and "\<And>h. map_option gen (b h) = map_option gen (backend p h)"
  shows "coherent (p\<lparr>backend := b\<rparr>)"
proof -
  have "b h = None \<longleftrightarrow> backend p h = None" for h
  proof -
    have "(map_option gen (b h) = None) = (map_option gen (backend p h) = None)"
      by (simp only: assms(2))
    then show ?thesis by simp
  qed
  then have d: "dom b = dom (backend p)" by (auto simp: dom_def)
  from assms(1) have og: "one_generation p" by (simp add: coherent_def)
  have g: "one_generation (p\<lparr>backend := b\<rparr>)"
    unfolding one_generation_def
  proof (intro allI impI)
    fix c c' x y
    assume x: "backend (p\<lparr>backend := b\<rparr>) (sound_of (sounds (p\<lparr>backend := b\<rparr>)) c) = Some x"
      and y: "backend (p\<lparr>backend := b\<rparr>) (sound_of (sounds (p\<lparr>backend := b\<rparr>)) c') = Some y"
    have ex: "\<exists>z. backend p (sound_of (sounds p) d) = Some z \<and> gen z = gen w"
      if "b (sound_of (sounds p) d) = Some w" for d w
      using that assms(2) [of "sound_of (sounds p) d"]
      by (cases "backend p (sound_of (sounds p) d)") auto
    from x ex obtain x' where x': "backend p (sound_of (sounds p) c) = Some x'" "gen x' = gen x"
      by auto
    from y ex obtain y' where y': "backend p (sound_of (sounds p) c') = Some y'" "gen y' = gen y"
      by auto
    from og x'(1) y'(1) have "gen x' = gen y'" unfolding one_generation_def by blast
    with x'(2) y'(2) show "gen x = gen y" by simp
  qed
  from assms(1) have "inj (sound_of (sounds p))" "\<forall>c. sound_of (sounds p) c \<in> dom (backend p)"
    "\<forall>h \<in> dom (backend p). h < next_hid p"
    by (simp_all add: coherent_def)
  with g d show ?thesis by (simp add: coherent_def)
qed

lemma coherent_settings [simp]: "coherent (p\<lparr>settings := s\<rparr>) = coherent p"
  by (simp add: coherent_def one_generation_def)

lemma coherent_saveSettings [simp]: "coherent (saveSettings p) = coherent p"
  by (simp add: saveSettings_def coherent_def one_generation_def)

lemma coherent_install_scheme:
  assumes "\<forall>h \<in> dom (backend p). h < next_hid p"
  shows "coherent (install_scheme sch p)"
proof -
  obtain s b n where ld: "loadScheme sch (backend p) (next_hid p) = (s, b, n)"
    by (cases "loadScheme sch (backend p) (next_hid p)") auto
  have inj: "inj (sound_of s)" by (rule loadScheme_inj [OF ld])
  have new: "\<And>c. b (sound_of s c) = Some (fresh_howl sch (next_hid p) c)"
    by (rule loadScheme_new [OF ld])
  have dom: "dom b = dom (backend p) \<union> range (sound_of s)" by (rule loadScheme_dom [OF ld])
  have n: "n = next_hid p + 5" by (rule loadScheme_next [OF ld])
  have lt: "\<forall>h \<in> dom b. h < n"
  proof
    fix h
    assume "h \<in> dom b"
    then consider "h \<in> dom (backend p)" | c where "h = sound_of s c"
      using dom by auto
    then show "h < n"
    proof cases
      case 1
      with assms have "h < next_hid p" by blast
      with n show ?thesis by simp
    next
      case (2 c)
      then show ?thesis using loadScheme_sound_of [OF ld, of c] n by (cases c) auto
    qed
  qed
  show ?thesis
    using inj lt new
    by (auto simp: install_scheme_fields [OF ld] coherent_def one_generation_def fresh_howl_def)
qed

lemma coherent_bound: "coherent p \<Longrightarrow> \<forall>h \<in> dom (backend p). h < next_hid p"
  by (simp add: coherent_def)

lemma keydown_gen: "map_option gen (backend (keydown p k) h) = map_option gen (backend p h)"
  by (simp add: keydown_backend howl_call_gen gen_keep split: option.split)

lemma coherent_keydown: "coherent p \<Longrightarrow> coherent (keydown p k)"
proof -
  assume c: "coherent p"
  have "keydown p k = p\<lparr>backend := backend (keydown p k)\<rparr>"
    by (simp add: keydown_def split: option.splits)
  moreover have "coherent (p\<lparr>backend := backend (keydown p k)\<rparr>)"
    using c keydown_gen by (rule coherent_backend_gen)
  ultimately show ?thesis by simp
qed

lemma coherent_volume_changed: "coherent p \<Longrightarrow> coherent (volume_changed v p)"
proof -
  assume c: "coherent p"
  let ?p1 = "p\<lparr>settings := (settings p)\<lparr>volumn := Some v\<rparr>\<rparr>"
  let ?b = "sounds_apply (howl_volume (of_int v / 100)) (sounds p) (backend p)"
  from c have "coherent ?p1" by simp
  then have "coherent (?p1\<lparr>backend := ?b\<rparr>)"
    by (rule coherent_backend_gen) (simp add: sounds_apply_gen gen_keep)
  with c show ?thesis by (simp add: volume_changed_def Let_def)
qed

lemma coherent_onunload: "coherent p \<Longrightarrow> coherent (onunload p)"
  unfolding onunload_def unloadSounds_def
  by (rule coherent_backend_gen) (simp_all add: sounds_apply_gen gen_keep)

lemma coherent_scheme_changed: "coherent p \<Longrightarrow> coherent (scheme_changed cat v p)"
  unfolding scheme_changed_def Let_def coherent_saveSettings
  by (rule coherent_install_scheme) (simp add: coherent_bound)

lemma coherent_refreshSounds: "coherent p \<Longrightarrow> coherent (refreshSounds p)"
  unfolding refreshSounds_def by (rule coherent_install_scheme) (simp add: coherent_bound)

lemma coherent_toggleSound: "coherent (toggleSound b p) = coherent p"
  by (simp add: toggleSound_def)

lemma coherent_plugin_step: "coherent p \<Longrightarrow> coherent (plugin_step cat p e)"
  by (cases e)
     (simp_all add: coherent_keydown coherent_volume_changed coherent_onunload
        coherent_scheme_changed coherent_refreshSounds coherent_toggleSound
        enable_command_def disable_command_def enabled_changed_def)

lemma coherent_onload: "coherent (onload d plugin_new)"
proof -
  have ld: "loadScheme defaultScheme Map.empty 0 = (sounds plugin_new, backend plugin_new, 5)"
    by (simp add: plugin_new_def loadScheme_def Let_def)
  have "next_hid plugin_new = 5"
    by (simp add: plugin_new_def loadScheme_def Let_def)
  then have "\<forall>h \<in> dom (backend plugin_new). h < next_hid plugin_new"
    by (auto simp: loadScheme_dom [OF ld] loadScheme_sound_of [OF ld] split: channel.splits)
  then show ?thesis
    by (simp add: onload_def coherent_install_scheme)
qed

lemma reachable_coherent: "reachable cat p \<Longrightarrow> coherent p"
proof (induction rule: reachable.induct)
  case (start d)
  show ?case by (rule coherent_onload)
next
  case (step p e)
  from step.IH show ?case by (rule coherent_plugin_step)
qed

lemma scheme_changed_fields:
  assumes "loadScheme sch (backend p) (next_hid p) = (s, b, n)"
    and "sch = (case cat v of None \<Rightarrow> defaultScheme | Some x \<Rightarrow> x)"
  shows "scheme_changed cat v p =
           saveSettings (p\<lparr>settings := (settings p)\<lparr>activeScheme := sch\<rparr>,
                           sounds := s, backend := b, next_hid := n\<rparr>)"
  using assms by (simp add: scheme_changed_def Let_def install_scheme_def)

lemma onload_plugin_new:
  "settings (onload None plugin_new) = DEFAULT_SETTINGS_V1"
  "sounds (onload None plugin_new) = \<lparr>key = 5, key2 = 6, enter = 7, space = 8, delete = 9\<rparr>"
  "next_hid (onload None plugin_new) = 10"
  "backend (onload None plugin_new) (sound_of (sounds (onload None plugin_new)) c)
     = Some (fresh_howl defaultScheme 5 c)"
  "backend (onload None plugin_new) 0 = Some (fresh_howl defaultScheme 0 Key)"
proof -
  have n: "next_hid plugin_new = 5" and s: "activeScheme DEFAULT_SETTINGS_V1 = defaultScheme"
    by (simp_all add: plugin_new_def loadScheme_def Let_def DEFAULT_SETTINGS_V1_def)
  obtain s' b n' where ld: "loadScheme defaultScheme (backend plugin_new) 5 = (s', b, n')"
    by (cases "loadScheme defaultScheme (backend plugin_new) 5") auto
  have eq: "onload None plugin_new = plugin_new\<lparr>settings := DEFAULT_SETTINGS_V1, sounds := s',
              backend := b, next_hid := n'\<rparr>"
    using ld n s by (simp add: onload_def loadSettings_def install_scheme_def)
  have s': "s' = \<lparr>key = 5, key2 = 6, enter = 7, space = 8, delete = 9\<rparr>"
    using ld by (simp add: loadScheme_def Let_def)
  show "settings (onload None plugin_new) = DEFAULT_SETTINGS_V1" by (simp add: eq)
  show "sounds (onload None plugin_new) = \<lparr>key = 5, key2 = 6, enter = 7, space = 8, delete = 9\<rparr>"
    by (simp add: eq s')
  show "next_hid (onload None plugin_new) = 10" using loadScheme_next [OF ld] by (simp add: eq)
  show "backend (onload None plugin_new) (sound_of (sounds (onload None plugin_new)) c)
     = Some (fresh_howl defaultScheme 5 c)"
    using loadScheme_new [OF ld] by (simp add: eq)
  have l0: "loadScheme defaultScheme Map.empty 0 = (sounds plugin_new, backend plugin_new, 5)"
    by (simp add: plugin_new_def loadScheme_def Let_def)
  have "backend plugin_new 0 = Some (fresh_howl defaultScheme 0 Key)"
    using loadScheme_new [OF l0, of Key] loadScheme_sound_of [OF l0, of Key] by simp
  then show "backend (onload None plugin_new) 0 = Some (fresh_howl defaultScheme 0 Key)"
    using loadScheme_old [OF ld, of 0] by (simp add: eq)
qed

section \<open>Properties of the Scheme Activation Bridge\<close>

text \<open>C5: atomic scheme swap. In every state reachable from \<open>onload\<close> by any
  sequence of events, the five handles of the active set belong to one and the
  same scheme generation: a key press can never play a handle of a partly
  replaced set.\<close>

theorem reachable_one_generation: "reachable cat p \<Longrightarrow> one_generation p"
  using reachable_coherent by (simp add: coherent_def)

theorem reachable_one_generation_witness:
  "reachable Map.empty (plugin_step Map.empty (onload None plugin_new) (DropdownChanged ''x''))
   \<and> one_generation (plugin_step Map.empty (onload None plugin_new) (DropdownChanged ''x''))"
proof -
  have r: "reachable Map.empty (plugin_step Map.empty (onload None plugin_new) (DropdownChanged ''x''))"
    by (rule reachable.step [OF reachable.start])
  from r show ?thesis using reachable_one_generation [OF r] by simp
qed

text \<open>C6: volume propagation. Moving the slider to \<open>v\<close> sets the volume of every
  one of the five handles of the active set to \<open>v / 100\<close>, leaves everything else
  about them unchanged, and touches no other handle.\<close>

theorem volume_changed_all:
  assumes "coherent p"
  shows "(\<forall>c. backend (volume_changed v p) (sound_of (sounds p) c) =
              map_option (howl_volume (of_int v / 100)) (backend p (sound_of (sounds p) c)))
         \<and> (\<forall>h. h \<notin> range (sound_of (sounds p)) \<longrightarrow> backend (volume_changed v p) h = backend p h)
         \<and> volumn (settings (volume_changed v p)) = Some v"
proof -
  have inj: "inj (sound_of (sounds p))" using assms by (simp add: coherent_def)
  have b: "backend (volume_changed v p) =
             sounds_apply (howl_volume (of_int v / 100)) (sounds p) (backend p)"
    by (simp add: volume_changed_def Let_def saveSettings_def)
  have "volumn (settings (volume_changed v p)) = Some v"
    by (simp add: volume_changed_def Let_def saveSettings_def)
  then show ?thesis
    using inj by (auto simp: b sounds_apply_inside intro!: sounds_apply_outside)
qed

theorem volume_changed_all_witness:
  "coherent (onload None plugin_new)
   \<and> backend (volume_changed 42 (onload None plugin_new)) 5
       = Some ((fresh_howl defaultScheme 5 Key)\<lparr>vol := 21 / 50\<rparr>)"
proof -
  have c: "coherent (onload None plugin_new)" by (rule coherent_onload)
  have "backend (volume_changed 42 (onload None plugin_new)) (sound_of (sounds (onload None plugin_new)) Key)
        = map_option (howl_volume (of_int 42 / 100))
            (backend (onload None plugin_new) (sound_of (sounds (onload None plugin_new)) Key))"
    using volume_changed_all [OF c, of 42] by blast
  moreover have "backend (onload None plugin_new) 5 = Some (fresh_howl defaultScheme 5 Key)"
    using onload_plugin_new(4) [of Key] by (simp add: onload_plugin_new(2))
  ultimately show ?thesis using c by (simp add: onload_plugin_new(2) howl_volume_def)
qed

text \<open>C7: a scheme change never releases the handles it replaces: every handle
  the store held before the change is still there, unchanged (in particular
  still loaded). The specification requires the previous set to be released
  before the new one is installed; the code leaks it.\<close>

theorem scheme_changed_keeps_old:
  assumes "coherent p" and "backend p h = Some x"
  shows "backend (scheme_changed cat v p) h = Some x"
proof -
  let ?sch = "case cat v of None \<Rightarrow> defaultScheme | Some x \<Rightarrow> x"
  obtain s b n where ld: "loadScheme ?sch (backend p) (next_hid p) = (s, b, n)"
    by (cases "loadScheme ?sch (backend p) (next_hid p)") auto
  from assms have "h < next_hid p" using coherent_bound by blast
  then have "b h = backend p h" by (rule loadScheme_old [OF ld])
  with assms(2) show ?thesis by (simp add: scheme_changed_fields [OF ld] saveSettings_def)
qed

theorem scheme_changed_keeps_old_witness:
  "coherent (onload None plugin_new)
   \<and> backend (onload None plugin_new) 5 = Some (fresh_howl defaultScheme 5 Key)
   \<and> backend (scheme_changed Map.empty ''x'' (onload None plugin_new)) 5
       = Some (fresh_howl defaultScheme 5 Key)"
proof -
  have c: "coherent (onload None plugin_new)" by (rule coherent_onload)
  have h: "backend (onload None plugin_new) 5 = Some (fresh_howl defaultScheme 5 Key)"
    using onload_plugin_new(4) [of Key] by (simp add: onload_plugin_new(2))
  show ?thesis using c h scheme_changed_keeps_old [OF c h] by simp
qed

text \<open>C8: what a scheme change installs: the catalogue's scheme of that id, or
  the default scheme when the catalogue has none (the error path of
  \<open>getScheme\<close>), becomes the active scheme and is persisted; the new set consists
  of freshly created handles of that scheme, at their initial volume 1, whatever
  volume the settings hold.\<close>

theorem scheme_changed_installs:
  "let sch = (case cat v of None \<Rightarrow> defaultScheme | Some x \<Rightarrow> x);
       p' = scheme_changed cat v p
   in activeScheme (settings p') = sch \<and> saved p' = Some (settings p')
      \<and> volumn (settings p') = volumn (settings p)
      \<and> (\<forall>c. backend p' (sound_of (sounds p') c) = Some (fresh_howl sch (next_hid p) c))"
proof -
  let ?sch = "case cat v of None \<Rightarrow> defaultScheme | Some x \<Rightarrow> x"
  obtain s b n where ld: "loadScheme ?sch (backend p) (next_hid p) = (s, b, n)"
    by (cases "loadScheme ?sch (backend p) (next_hid p)") auto
  show ?thesis
    using loadScheme_new [OF ld] by (simp add: Let_def scheme_changed_fields [OF ld] saveSettings_def)
qed

text \<open>C25: unloading the plugin does not release what was replaced.
  \<open>onunload\<close> unloads the current set only: after loading, one scheme change
  and unloading, every handle of the current set is unloaded, but the handles
  the constructor created (replaced by \<open>onload\<close>) and those of the replaced
  scheme are still loaded.\<close>

theorem unload_leaves_replaced_loaded:
  "let p = plugin_run Map.empty (onload None plugin_new) [DropdownChanged ''x'', Unload]
   in (\<forall>c. map_option loaded (backend p (sound_of (sounds p) c)) = Some False)
      \<and> backend p 0 = Some (fresh_howl defaultScheme 0 Key)
      \<and> backend p 5 = Some (fresh_howl defaultScheme 5 Key)"
proof -
  let ?p1 = "onload None plugin_new"
  obtain s b n where ld: "loadScheme defaultScheme (backend ?p1) (next_hid ?p1) = (s, b, n)"
    by (cases "loadScheme defaultScheme (backend ?p1) (next_hid ?p1)") auto
  let ?p2 = "scheme_changed Map.empty ''x'' ?p1"
  have p2: "?p2 = saveSettings (?p1\<lparr>settings := (settings ?p1)\<lparr>activeScheme := defaultScheme\<rparr>,
                    sounds := s, backend := b, next_hid := n\<rparr>)"
    by (rule scheme_changed_fields [OF ld]) simp
  have sn: "sound_of s c = 10 + (case c of Key \<Rightarrow> 0 | Key2 \<Rightarrow> 1 | Enter \<Rightarrow> 2 | Space \<Rightarrow> 3 | Delete \<Rightarrow> 4)"
    for c using loadScheme_sound_of [OF ld, of c] by (simp add: onload_plugin_new(3))
  have inj: "inj (sound_of s)" by (rule loadScheme_inj [OF ld])
  have old0: "b 0 = Some (fresh_howl defaultScheme 0 Key)"
    using loadScheme_old [OF ld, of 0] onload_plugin_new(5) by (simp add: onload_plugin_new(3))
  have old5: "b 5 = Some (fresh_howl defaultScheme 5 Key)"
    using loadScheme_old [OF ld, of 5] onload_plugin_new(3) onload_plugin_new(4) [of Key] by (simp add: onload_plugin_new(2))
  have out: "\<forall>c. sound_of s c \<noteq> h" if "h < 10" for h using that by (simp add: sn split: channel.splits)
  have cur: "b (sound_of s c) = Some (fresh_howl defaultScheme 10 c)" for c
    using loadScheme_new [OF ld, of c] by (simp add: onload_plugin_new(3))
  show ?thesis
    using p2 sounds_apply_inside [OF inj] sounds_apply_outside [OF out] old0 old5 cur
    by (simp add: Let_def onunload_def unloadSounds_def saveSettings_def howl_unload_def fresh_howl_def
             del: sound_of.simps)
qed

lemma vol_ok_fresh [simp]: "vol_ok (fresh_howl sch n c)"
  by (simp add: vol_ok_def fresh_howl_def)

lemma install_scheme_vol: "backend_all vol_ok (backend p) \<Longrightarrow> backend_all vol_ok (backend (install_scheme sch p))"
  by (cases "loadScheme sch (backend p) (next_hid p)")
     (auto simp: install_scheme_fields intro: loadScheme_all)

lemma onload_vol: "backend_all vol_ok (backend (onload d plugin_new))"
proof -
  have ld: "loadScheme defaultScheme Map.empty 0 = (sounds plugin_new, backend plugin_new, 5)"
    by (simp add: plugin_new_def loadScheme_def Let_def)
  have "backend_all vol_ok Map.empty" by (simp add: backend_all_def)
  then have "backend_all vol_ok (backend plugin_new)" by (rule loadScheme_all [OF ld]) simp
  then show ?thesis by (simp add: onload_def install_scheme_vol)
qed

text \<open>Every handler keeps every handle's level within bounds when the slider
  delivers values within its limits.\<close>

lemma plugin_step_vol:
  assumes "backend_all vol_ok (backend p)" and "slider_ok e"
  shows "backend_all vol_ok (backend (plugin_step cat p e))"
proof (cases e)
  case (KeyDown k)
  have "vol_ok x \<Longrightarrow> vol_ok (howl_play x)" for x by (simp add: vol_ok_def howl_play_def)
  with assms(1) KeyDown show ?thesis
    by (simp add: keydown_backend howl_call_all split: option.split)
next
  case (SliderChanged v)
  with assms(2) have "vol_ok (howl_volume (of_int v / 100) x)" for x
    by (simp add: slider_ok_def vol_ok_def howl_volume_def)
  with assms(1) SliderChanged show ?thesis
    by (simp add: volume_changed_def Let_def saveSettings_def sounds_apply_all)
next
  case (DropdownChanged v)
  with assms(1) show ?thesis
    by (simp add: scheme_changed_def Let_def saveSettings_def install_scheme_vol)
next
  case Refresh
  with assms(1) show ?thesis by (simp add: refreshSounds_def install_scheme_vol)
next
  case Unload
  have "vol_ok x \<Longrightarrow> vol_ok (howl_unload x)" for x by (simp add: vol_ok_def howl_unload_def)
  with assms(1) Unload show ?thesis
    by (simp add: onunload_def unloadSounds_def sounds_apply_all)
qed (use assms in \<open>simp_all add: enable_command_def disable_command_def toggleSound_def
                                 enabled_changed_def saveSettings_def\<close>)

lemma plugin_run_vol:
  "backend_all vol_ok (backend p) \<Longrightarrow> \<forall>e \<in> set es. slider_ok e \<Longrightarrow>
   backend_all vol_ok (backend (plugin_run cat p es))"
  by (induction es arbitrary: p) (simp_all add: plugin_step_vol)

section \<open>Properties of the volume slider\<close>

text \<open>C26: playback levels stay within bounds. As long as the slider delivers
  values within its limits 0 to 100, every handle of the store, in every state
  a run of UI events reaches from loading, plays at a level between 0 and 1:
  \<open>value / 100\<close> never leaves the range howler accepts.\<close>

theorem slider_volume_bounded:
  assumes "\<forall>e \<in> set es. slider_ok e" and "backend (plugin_run cat (onload d plugin_new) es) h = Some x"
  shows "0 \<le> vol x \<and> vol x \<le> 1"
  using plugin_run_vol [OF onload_vol assms(1)] assms(2) by (auto simp: backend_all_def vol_ok_def)

theorem slider_volume_bounded_witness:
  "slider_ok (SliderChanged 42)
   \<and> backend (plugin_run Map.empty (onload None plugin_new) [SliderChanged 42]) 5
       = Some ((fresh_howl defaultScheme 5 Key)\<lparr>vol := 21 / 50\<rparr>)
   \<and> 0 \<le> vol ((fresh_howl defaultScheme 5 Key)\<lparr>vol := 21 / 50\<rparr>)
   \<and> vol ((fresh_howl defaultScheme 5 Key)\<lparr>vol := 21 / 50\<rparr>) \<le> 1"
proof -
  let ?p1 = "onload None plugin_new"
  have i: "inj (sound_of (sounds ?p1))" using coherent_onload [of None] by (simp add: coherent_def)
  have k: "sound_of (sounds ?p1) Key = 5" by (simp add: onload_plugin_new(2))
  have "backend (plugin_run Map.empty ?p1 [SliderChanged 42]) (sound_of (sounds ?p1) Key) =
          map_option (howl_volume (of_int 42 / 100)) (backend ?p1 (sound_of (sounds ?p1) Key))"
    by (simp add: volume_changed_def Let_def saveSettings_def sounds_apply_inside [OF i] del: sound_of.simps)
  then have bp: "backend (plugin_run Map.empty ?p1 [SliderChanged 42]) 5
                   = Some ((fresh_howl defaultScheme 5 Key)\<lparr>vol := 21 / 50\<rparr>)"
    using onload_plugin_new(4) [of Key] k by (simp add: howl_volume_def del: sound_of.simps)
  have ok: "\<forall>e \<in> set [SliderChanged 42]. slider_ok e" by (simp add: slider_ok_def)
  from slider_volume_bounded [OF ok bp] ok bp show ?thesis by (simp add: slider_ok_def)
qed

text \<open>C27: the saved volume is not applied on load. However the persisted
  settings set the volume, the handles \<open>onload\<close> installs play at full level,
  while the slider shows the saved value: the sound is louder than the
  setting says until the slider is moved.\<close>

theorem onload_ignores_saved_volume:
  "(\<forall>c. map_option vol (backend (onload d plugin_new) (sound_of (sounds (onload d plugin_new)) c)) = Some 1)
   \<and> slider_value (onload d plugin_new) =
       (case d of None \<Rightarrow> 100 | Some st \<Rightarrow> (case s_volumn st of None \<Rightarrow> 100 | Some v \<Rightarrow> v))"
proof -
  let ?p1 = "plugin_new\<lparr>settings := loadSettings d\<rparr>"
  obtain s b n where ld: "loadScheme (activeScheme (loadSettings d)) (backend ?p1) (next_hid ?p1) = (s, b, n)"
    by (cases "loadScheme (activeScheme (loadSettings d)) (backend ?p1) (next_hid ?p1)") auto
  have eq: "onload d plugin_new = ?p1\<lparr>sounds := s, backend := b, next_hid := n\<rparr>"
    using install_scheme_fields [OF ld] by (simp add: onload_def)
  show ?thesis
    using loadScheme_new [OF ld]
    by (simp add: eq slider_value_def loadSettings_def DEFAULT_SETTINGS_V1_def fresh_howl_def
             split: option.splits)
qed

end
