(* ===== verification/Dropdown.thy ===== *)
theory Dropdown
  imports Bridge Vault Scheduler
begin

text \<open>
  The scheme dropdown's \<open>onChange\<close> handler (\<open>src/src/SettingTab.ts\<close> lines
  66-75) cut at its \<open>await\<close>s and run on the event loop of \<open>Scheduler\<close>, with
  the plugin state as the store. A change of the dropdown starts the handler,
  which waits for \<open>getScheme\<close>; it then sets \<open>settings.activeScheme\<close>, calls
  \<open>loadScheme\<close> (which creates the new handles) and waits for it; it then
  assigns the loaded set to \<open>this.plugin.sounds\<close> and saves the settings.
  \<open>scheme_changed\<close> of \<open>Bridge\<close> is the same handler run without interruption
  (\<open>dropdown_seq\<close>). Two changes in quick succession interleave, and the one
  whose \<open>loadScheme\<close> resolves last wins the sounds, whichever was chosen last.
\<close>

datatype dtask =
    DGetScheme string
  | DAssign sounds

fun dstep :: "catalogue \<Rightarrow> plugin \<Rightarrow> dtask \<Rightarrow> plugin \<times> dtask list \<times> error list" where
  "dstep cat p (DGetScheme value) =
     (let scheme = (case cat value of None \<Rightarrow> defaultScheme | Some s \<Rightarrow> s);
          p1 = p\<lparr>settings := (settings p)\<lparr>activeScheme := scheme\<rparr>\<rparr>;
          (s, b, n) = loadScheme scheme (backend p1) (next_hid p1)
      in (p1\<lparr>backend := b, next_hid := n\<rparr>, [DAssign s], []))"
| "dstep cat p (DAssign s) = (saveSettings (p\<lparr>sounds := s\<rparr>), [], [])"

text \<open>Two schemes of a catalogue for the concrete run.\<close>

abbreviation scheme_a :: scheme where
  "scheme_a \<equiv> \<lparr>scheme_id = ''a'', scheme_src = (\<lambda>c. ''a.wav'')\<rparr>"

abbreviation scheme_b :: scheme where
  "scheme_b \<equiv> \<lparr>scheme_id = ''b'', scheme_src = (\<lambda>c. ''b.wav'')\<rparr>"

abbreviation demo_catalogue :: catalogue where
  "demo_catalogue \<equiv> [''a'' \<mapsto> scheme_a, ''b'' \<mapsto> scheme_b]"

section \<open>Lemmas\<close>

text \<open>Run without interruption, the handler is \<open>scheme_changed\<close>.\<close>

lemma dropdown_seq:
  assumes "dstep cat p (DGetScheme v) = (p1, new, es)"
  shows "\<exists>s. new = [DAssign s] \<and> es = [] \<and> fst (dstep cat p1 (DAssign s)) = scheme_changed cat v p"
proof -
  let ?sch = "case cat v of None \<Rightarrow> defaultScheme | Some s \<Rightarrow> s"
  obtain s b n where ld: "loadScheme ?sch (backend p) (next_hid p) = (s, b, n)"
    by (cases "loadScheme ?sch (backend p) (next_hid p)") auto
  from assms ld have p1: "p1 = p\<lparr>settings := (settings p)\<lparr>activeScheme := ?sch\<rparr>, backend := b, next_hid := n\<rparr>"
    and "new = [DAssign s]" "es = []" by (auto simp: Let_def)
  moreover have "p1\<lparr>sounds := s\<rparr> =
      p\<lparr>settings := (settings p)\<lparr>activeScheme := ?sch\<rparr>, sounds := s, backend := b, next_hid := n\<rparr>"
    unfolding p1 by (cases p) simp
  then have "fst (dstep cat p1 (DAssign s)) = scheme_changed cat v p"
    using scheme_changed_fields [of ?sch p s b n cat v, OF ld refl] by simp
  ultimately show ?thesis by blast
qed


section \<open>Properties of the dropdown handler\<close>

text \<open>C9: overlapping scheme changes leave the settings and the sounds apart.
  When the user picks scheme \<open>a\<close> and then scheme \<open>b\<close> before the first
  \<open>loadScheme\<close> has resolved, there is a schedule, with both handlers run to
  their end, in which \<open>b\<close>'s load resolves first: the settings, and the saved
  settings, name \<open>b\<close>, while the active handles are \<open>a\<close>'s. Keys play scheme
  \<open>a\<close>, and after a restart the plugin loads \<open>b\<close>. The specification asks the
  swap to be atomic and the active set to be the activated scheme's.\<close>

theorem dropdown_race:
  assumes "cat va = Some sa" and "cat vb = Some sb"
  shows "\<exists>w. (resume (dstep cat))\<^sup>*\<^sup>* \<lparr>store = p, pending = mset [DGetScheme va, DGetScheme vb], rejected = []\<rparr> w
           \<and> pending w = {#}
           \<and> activeScheme (settings (store w)) = sb
           \<and> saved (store w) = Some (settings (store w))
           \<and> (\<forall>c. backend (store w) (sound_of (sounds (store w)) c) = Some (fresh_howl sa (next_hid p) c))"
proof -
  obtain s1 b1 n1 where ld1: "loadScheme sa (backend p) (next_hid p) = (s1, b1, n1)"
    by (cases "loadScheme sa (backend p) (next_hid p)") auto
  obtain s2 b2 n2 where ld2: "loadScheme sb b1 n1 = (s2, b2, n2)"
    by (cases "loadScheme sb b1 n1") auto
  define P1 where "P1 = fst (dstep cat p (DGetScheme va))"
  have d1: "dstep cat p (DGetScheme va) = (P1, [DAssign s1], [])"
    and P1: "settings P1 = (settings p)\<lparr>activeScheme := sa\<rparr>" "backend P1 = b1" "next_hid P1 = n1"
    using ld1 assms(1) by (simp_all add: P1_def Let_def)
  define P2 where "P2 = fst (dstep cat P1 (DGetScheme vb))"
  have d2: "dstep cat P1 (DGetScheme vb) = (P2, [DAssign s2], [])"
    and P2: "settings P2 = (settings p)\<lparr>activeScheme := sb\<rparr>" "backend P2 = b2"
    using ld2 assms(2) P1 by (simp_all add: P2_def Let_def)
  define P3 where "P3 = saveSettings (P2\<lparr>sounds := s2\<rparr>)"
  define P4 where "P4 = saveSettings (P3\<lparr>sounds := s1\<rparr>)"
  have r1: "resume (dstep cat) \<lparr>store = p, pending = mset [DGetScheme va, DGetScheme vb], rejected = []\<rparr>
      \<lparr>store = P1, pending = mset [DGetScheme vb, DAssign s1], rejected = []\<rparr>"
    using resume_pick_list [of "DGetScheme va" "[DGetScheme va, DGetScheme vb]" "dstep cat" p P1
        "[DAssign s1]" "[]" "[]"] d1 by simp
  have r2: "resume (dstep cat) \<lparr>store = P1, pending = mset [DGetScheme vb, DAssign s1], rejected = []\<rparr>
      \<lparr>store = P2, pending = mset [DAssign s1, DAssign s2], rejected = []\<rparr>"
    using resume_pick_list [of "DGetScheme vb" "[DGetScheme vb, DAssign s1]" "dstep cat" P1 P2
        "[DAssign s2]" "[]" "[]"] d2 by simp
  have r3: "resume (dstep cat) \<lparr>store = P2, pending = mset [DAssign s1, DAssign s2], rejected = []\<rparr>
      \<lparr>store = P3, pending = mset [DAssign s1], rejected = []\<rparr>"
    using resume.pick [of "DAssign s2" "\<lparr>store = P2, pending = mset [DAssign s1, DAssign s2], rejected = []\<rparr>"
        "dstep cat" P3 "[]" "[]"] by (simp add: P3_def)
  have r4: "resume (dstep cat) \<lparr>store = P3, pending = mset [DAssign s1], rejected = []\<rparr>
      \<lparr>store = P4, pending = {#}, rejected = []\<rparr>"
    using resume.pick [of "DAssign s1" "\<lparr>store = P3, pending = mset [DAssign s1], rejected = []\<rparr>"
        "dstep cat" P4 "[]" "[]"] by (simp add: P4_def)
  have run: "(resume (dstep cat))\<^sup>*\<^sup>* \<lparr>store = p, pending = mset [DGetScheme va, DGetScheme vb], rejected = []\<rparr>
      \<lparr>store = P4, pending = {#}, rejected = []\<rparr>"
    using r1 r2 r3 r4 by (meson converse_rtranclp_into_rtranclp rtranclp.rtrancl_refl)
  have set4: "settings P4 = (settings p)\<lparr>activeScheme := sb\<rparr>" "sounds P4 = s1" "backend P4 = b2"
    "saved P4 = Some (settings P4)"
    using P2 by (simp_all add: P4_def P3_def saveSettings_def)
  have "b2 (sound_of s1 c) = Some (fresh_howl sa (next_hid p) c)" for c
  proof -
    have "sound_of s1 c < n1"
      using loadScheme_sound_of [OF ld1, of c] loadScheme_next [OF ld1] by (cases c) simp_all
    then have "b2 (sound_of s1 c) = b1 (sound_of s1 c)" by (rule loadScheme_old [OF ld2])
    with loadScheme_new [OF ld1, of c] show ?thesis by simp
  qed
  with run set4 show ?thesis by (intro exI [of _ "\<lparr>store = P4, pending = {#}, rejected = []\<rparr>"]) simp
qed

theorem dropdown_race_witness:
  "\<exists>w. (resume (dstep demo_catalogue))\<^sup>*\<^sup>*
          \<lparr>store = onload None plugin_new, pending = mset [DGetScheme ''a'', DGetScheme ''b''], rejected = []\<rparr> w
     \<and> pending w = {#}
     \<and> activeScheme (settings (store w)) = scheme_b
     \<and> saved (store w) = Some (settings (store w))
     \<and> (\<forall>c. backend (store w) (sound_of (sounds (store w)) c) = Some (fresh_howl scheme_a 10 c))"
  using dropdown_race [of demo_catalogue "''a''" scheme_a "''b''" scheme_b "onload None plugin_new"]
  by (simp add: onload_plugin_new(3))

end
