(* ===== verification/Spec2Isabelle.thy ===== *)
theory Spec2Isabelle
  imports Install Dropdown
begin

text \<open>
  \<^bold>\<open>Click Clack\<close>: audible keystroke feedback for the Obsidian editor
  (\<open>src/src/main.ts\<close>, \<open>src/src/SettingTab.ts\<close>, \<open>src/src/fetchHelper.ts\<close>,
  with the host interfaces typed in \<open>src/typings/obsidian.d.ts\<close> and
  \<open>src/typings/zip.d.ts\<close>). A shallow embedding: every handler and helper of
  the source is a HOL function of the same name over explicit state, errors
  are values of the datatype \<open>error\<close>, and the asynchronous code runs on an
  explicit event loop.

  \<^bold>\<open>Parts and how they interact.\<close> The plugin (\<open>ClickClackPlugin\<close>) holds the
  settings and the active set of five sound handles; its keydown listener
  plays the handle of the key's channel (Channel Dispatch). The settings tab
  toggles sound, sets the volume and swaps the scheme (Scheme Activation
  Bridge), and its download button runs \<open>FetchHelper.checkOrDownload\<close>
  (Resource Acquisition Pipeline), which ensures the resource folder, fetches
  the release archive through \<open>fetchAsset\<close> (Release Asset Resolver) when it is
  not cached, and starts \<open>unzip\<close> (Archive Extractor) without awaiting it.
  Everything touches the plugin-private file store through the host's
  \<open>DataAdapter\<close>.

  \<^bold>\<open>Theories.\<close>
  \<^item> \<open>Prelude\<close>: byte strings as \<open>8 word list\<close>, paths as segment lists,
    \<open>join_with\<close> and \<open>split_on\<close> (JavaScript's \<open>join\<close> and \<open>split\<close>) with their
    round trip, and the shared collections \<open>model_defs\<close> and \<open>path_simps\<close>.
  \<^item> \<open>Sounds\<close>: the howler handles (\<open>howl\<close>, the backend store of handles
    recording \<open>play\<close>, \<open>stop\<close>, \<open>unload\<close> and \<open>volume\<close> calls), the channel set
    \<open>sounds\<close> of \<open>main.ts\<close> lines 10-16, \<open>stopSounds\<close>/\<open>unloadSounds\<close>, and the
    scheme catalogue's \<open>loadScheme\<close> (modelled from the specification:
    \<open>schemeHelper\<close> and \<open>defaultSound\<close> are not in the repository), which
    allocates five fresh handles of one generation at volume 1 on every call,
    also for the default scheme; \<open>backend_all\<close> lifts a property of one handle
    to the whole store.
  \<^item> \<open>Plugin\<close>: settings and their \<open>Object.assign\<close> loading, the plugin record,
    \<open>onload\<close>, the key table \<open>DEFAULT_MAP\<close> (spec-modelled, \<open>keySoundMap\<close> is not
    in the repository), \<open>keydown_target\<close>/\<open>keydown\<close> (the listener of lines
    41-55, guards in source order), the two commands, \<open>toggleSound\<close>,
    \<open>refreshSounds\<close>, \<open>onunload\<close>, and \<open>stored_of\<close>, the object \<open>saveData\<close>
    persists. Claims C1-C4 and C22-C24.
  \<^item> \<open>Bridge\<close>: the settings tab's handlers, each run to its end, the step
    \<open>plugin_step\<close> over the UI events \<open>ui_event\<close>, the reachable plugin states
    \<open>reachable\<close> (an inductive predicate) and the invariant \<open>coherent\<close>
    (injective handles, all allocated, one live generation), proved for every
    operation and by rule induction for every reachable state; the slider's
    limits \<open>slider_ok\<close> and its shown value \<open>slider_value\<close> (lines 38-39).
    Claims C5-C8 and C25-C27.
  \<^item> \<open>Dropdown\<close>: the dropdown's handler cut at its two awaits (\<open>dstep\<close> on the
    event loop), which run without interruption is \<open>scheme_changed\<close>
    (\<open>dropdown_seq\<close>). Claim C9.
  \<^item> \<open>Scheduler\<close>: the host event loop (specification section 5) as a generic
    interface: pending continuations as a multiset, \<open>resume step\<close> resumes any
    one of them, \<open>ranked\<close> gives termination by the multiset order, \<open>drain\<close> is
    the depth-first schedule with fuel, \<open>drain_resume\<close> shows it is one of
    the interleavings, and \<open>inevitable\<close> (an inductive predicate, the AF
    operator) says every schedule reaches a state; \<open>ranked_inevitable\<close>
    derives it from an invariant and the ranking.
  \<^item> \<open>Vault\<close>: the store \<open>segs \<rightharpoonup> node\<close> and the adapter's \<open>exists\<close>,
    recursive \<open>mkdir\<close>, \<open>writeBinary\<close> and \<open>readBinary\<close> (platform semantics,
    modelled from the specification's interface), with growth, well-formedness
    and the exact failure condition of \<open>mkdir\<close>.
  \<^item> \<open>Extract\<close>: \<open>unzip\<close> and \<open>checkOrCreateFolder\<close>: the tasks \<open>xtask\<close> cut at
    their awaits, \<open>xstep\<close> on the event loop, and the sequential reading
    \<open>run_seq\<close>, which is one of the schedules (\<open>run_seq_refines\<close>). Claims C10
    and C12-C13.
  \<^item> \<open>Resolver\<close>: \<open>fetchAsset\<close> run without interruption against a server
    \<open>net\<close>. Claims C14-C16.
  \<^item> \<open>Pipeline\<close>: \<open>download\<close> and \<open>checkOrDownload\<close>, both as tasks \<open>ptask\<close> on the
    event loop (\<open>pstep\<close>, which runs the extractor's tasks inside it) and as
    bodies run to their end (\<open>checkOrDownload_seq\<close>), which is one of the
    schedules (\<open>pipeline_refines\<close>). Claims C17-C21.
  \<^item> \<open>Feedback\<close>: properties of every schedule of the pipeline: a click always
    ends with the archive stored or a failure notice, and a corrupt cached
    archive ends in an unhandled rejection with no notice. Claims C28-C29.
  \<^item> \<open>Extract_Live\<close>: properties of every schedule of the extraction tasks.
    The core fact is that a task whose path does not reach below a segment list
    (\<open>reaches\<close>) leaves the store there alone (\<open>xstep_clear\<close>,
    \<open>file_task_resume\<close>), which gives best effort and the missing-folder
    failure. The idempotent re-run follows from \<open>task_done\<close>, a task with nothing
    left to do. Claims C30-C32.
  \<^item> \<open>Install\<close>: the composition of the pipeline with the extractor. Once only
    extraction tasks are pending, a step of \<open>pstep\<close> is a step of \<open>xstep\<close> on the
    store (\<open>resume_X_view\<close>, a simulation), so the invariant of C30 carries
    over to a whole click (\<open>click_inv\<close>, with \<open>zip_phase\<close> saying where the
    click's chain stands: the \<open>exists\<close> check, the download's awaits, \<open>unzip\<close>).
    Claim C11.
  \<^item> This theory holds this header. The plugin and the pipeline share no state:
    the download button's handler (\<open>SettingTab.ts\<close> lines 95-97) only awaits
    \<open>checkOrDownload\<close>, whose tasks \<open>checkOrDownload_call\<close> leaves pending, and
    the sounds it installs are read by the plugin only at the next
    \<open>loadScheme\<close>; so the two are verified apart.

  \<^bold>\<open>What the lemmas show.\<close> Dispatch plays exactly the mapped channel once, and
  nothing when disabled or with a modifier (C1-C4). Every reachable plugin
  state is coherent, so the handles of one scheme are the only live ones
  (C5); the volume slider reaches every handle (C6); a scheme change installs
  the new scheme's handles at volume 1 whatever the volume setting (C8) but
  leaves the old ones loaded, a leak (C7). Two overlapping scheme changes can
  end with the settings naming one scheme and the handles playing the other
  (C9, a concrete interleaving). Extraction never overwrites a file in any
  interleaving (C10), can lose a file to the un-awaited folder task (C12, a
  concrete interleaving), and stores payloads verbatim (C13). The resolver
  matches names exactly, fails without a download when the asset is missing,
  and stores the bytes verbatim (C14-C16). \<open>download\<close> always notifies, and
  rejects with one generic error whatever failed (C17); a cached archive costs
  no request in any interleaving (C18); a second click changes nothing (C19);
  two concurrent clicks may both download (C20); and no file but the archive is
  ever overwritten (C21). Saved settings survive a reload (C22); unloading
  unloads the active set (C23) but not the sets replaced before it, the
  constructor's included (C25); the two commands are complementary (C24). With
  the slider inside its limits every handle plays at a level in [0, 1] in
  every reached state (C26); \<open>onload\<close> plays at level 1 whatever volume was
  saved, while the slider shows the saved value (C27). Every schedule of a
  click ends with the archive stored or a failure notice shown (C28); with a
  corrupt cached archive it ends with \<open>ArchiveCorrupt\<close> unhandled and no notice
  (C29). In every schedule of the extraction, a file entry whose folder exists
  is stored, however the other writes fail (C30); a file entry whose folder no
  entry creates is never written, and the failure ends unhandled (C31); and
  after a sequential extraction a second one changes nothing in any
  interleaving (C32). End to end, a click installs each such file on every
  schedule of its tasks, the archive's \<open>exists\<close> check, its download when it is
  not cached and the server serves it, and \<open>unzip\<close> included (C11).

  \<^bold>\<open>Bounds and fuel.\<close> Loops over lists are structural recursion. The only fuel
  is \<open>drain\<close>'s. For extraction tasks the sum of their ranks suffices
  (\<open>xrank\<close>: 2 for a body with two awaits left, 1 for one; \<open>drain_run_seq\<close>),
  since each step consumes one unit and replaces a task by tasks of smaller
  rank; for a click, enough fuel exists because the extraction tasks it starts
  are bounded by the archive's entries (\<open>drain_checkOrDownload\<close>), and for any
  ranked step function (\<open>prank\<close> for the pipeline) by \<open>drain_total\<close>.
  That no schedule runs forever is proved without fuel by the multiset order
  (\<open>resume_wf\<close>); it is what turns an invariant into the liveness statements
  C11 and C28-C30 (\<open>ranked_inevitable\<close>). Volumes are rationals
  \<open>value / 100\<close> as the slider sets them; byte contents are \<open>8 word\<close> lists and
  only compared.

  \<^bold>\<open>Not modelled.\<close> Audio output itself (the handles only record the calls
  made on them), the DOM and the settings tab's rendering, i18n strings, the
  ZIP format (\<open>parse\<close> is a parameter of the host; \<open>None\<close> is a corrupt archive),
  HTTP transport (a function from request to response; the server answers a
  request the same way each time), and the text-file operations of the adapter
  that the code never calls. \<open>SchemeHelper\<close>, \<open>defaultSounds\<close>, \<open>keySoundMap\<close>
  and the settings module are imported by the source but not part of the
  repository; their definitions here follow the specification.
  \<open>refreshSounds\<close> has no caller in the repository, so the UI event
  \<open>Refresh\<close> stands for an outside call. The dropdown's refresh button only
  re-reads the option labels, and that is no state the plugin reads. The
  adapter's writes are all or nothing: a write fails only for a missing folder
  or a folder in the way, never half done, so the truncated archive that
  specification section 4.3 allows after a failed download does not arise.
  \<open>onload\<close> and the settings tab's handlers other than the dropdown's run
  without interruption: a dropdown change while \<open>onload\<close> awaits
  \<open>loadScheme\<close> (the tab is registered first, line 33) is not modelled.
  \<open>getData\<close> and \<open>arrayBuffer\<close> of an entry never reject.
\<close>

end
